theory Spec2Isabelle
  imports Main "HOL-Library.Multiset" "HOL-Library.AList"
begin

section \<open>Data model\<close>

text \<open>
  Entities are Python objects compared by identity; an entity handle is the value of
  \<^verbatim>\<open>id(agent)\<close>. Coordinates and all statistics are Python integers.
\<close>

type_synonym eid = nat
type_synonym cell = "int \<times> int"

text \<open>The exceptions the engine can raise: failed \<^verbatim>\<open>assert\<close>, missing dictionary key,
  \<^verbatim>\<open>ValueError\<close> (bad action, \<^verbatim>\<open>list.remove\<close> of an absent element, negative array
  dimension) and an array index out of range.\<close>

datatype error = AssertionError | KeyError | ValueError | IndexError

subsection \<open>board.py\<close>

text \<open>
  \<^verbatim>\<open>Board\<close>: \<open>grid\<close> is the boolean NumPy array (read and written only at coordinates that
  passed \<open>inbounds\<close> or that come out of \<open>loc\<close>), \<open>ents\<close> the dictionary cell \<open>\<rightarrow>\<close> eid and
  \<open>loc\<close> the dictionary eid \<open>\<rightarrow>\<close> cell.
\<close>

record board =
  grid :: "cell \<Rightarrow> bool"
  rows :: int
  cols :: int
  ents :: "cell \<rightharpoonup> eid"
  loc :: "eid \<rightharpoonup> cell"

text \<open>\<^verbatim>\<open>Board.__init__\<close>; \<^verbatim>\<open>np.full\<close> rejects a negative dimension with a ValueError.\<close>

definition Board_new :: "int \<Rightarrow> int \<Rightarrow> error + board" where
  "Board_new r c =
     (if r < 0 \<or> c < 0 then Inl ValueError
      else Inr \<lparr>grid = (\<lambda>_. False), rows = r, cols = c, ents = Map.empty, loc = Map.empty\<rparr>)"

definition inbounds :: "board \<Rightarrow> int \<Rightarrow> int \<Rightarrow> bool" where
  "inbounds b x y = (x \<ge> 0 \<and> x < rows b \<and> y \<ge> 0 \<and> y < cols b)"

definition free :: "board \<Rightarrow> int \<Rightarrow> int \<Rightarrow> error + bool" where
  "free b x y = (if \<not> inbounds b x y then Inl AssertionError else Inr (\<not> grid b (x, y)))"

definition used :: "board \<Rightarrow> int \<Rightarrow> int \<Rightarrow> error + bool" where
  "used b x y =
     (if \<not> inbounds b x y then Inl AssertionError
      else (case free b x y of Inl e \<Rightarrow> Inl e | Inr f \<Rightarrow> Inr (\<not> f)))"

text \<open>\<^verbatim>\<open>Board.add\<close>: \<^verbatim>\<open>assert self.free(x, y)\<close> fails when the cell is out of bounds (inside
  \<open>free\<close>) or occupied; nothing is checked about \<open>eid\<close>.\<close>

definition add :: "board \<Rightarrow> eid \<Rightarrow> int \<Rightarrow> int \<Rightarrow> error + board" where
  "add b eid x y =
     (case free b x y of
        Inl e \<Rightarrow> Inl e
      | Inr f \<Rightarrow>
          if \<not> f then Inl AssertionError
          else if \<not> inbounds b x y then Inl AssertionError
          else Inr (b\<lparr>grid := (grid b)((x, y) := True),
                     ents := (ents b)((x, y) \<mapsto> eid),
                     loc := (loc b)(eid \<mapsto> (x, y))\<rparr>))"

definition query :: "board \<Rightarrow> eid \<Rightarrow> error + cell" where
  "query b eid = (case loc b eid of None \<Rightarrow> Inl AssertionError | Some p \<Rightarrow> Inr p)"

definition lquery :: "board \<Rightarrow> int \<Rightarrow> int \<Rightarrow> error + eid" where
  "lquery b x y = (case ents b (x, y) of None \<Rightarrow> Inl AssertionError | Some e \<Rightarrow> Inr e)"

definition belongs :: "board \<Rightarrow> eid \<Rightarrow> bool" where
  "belongs b eid = (loc b eid \<noteq> None)"

text \<open>\<^verbatim>\<open>Board.remove\<close>; \<^verbatim>\<open>del self.ents[(x, y)]\<close> raises KeyError on a missing key.\<close>

definition remove :: "board \<Rightarrow> eid \<Rightarrow> error + board" where
  "remove b eid =
     (if loc b eid = None then Inl AssertionError
      else (case query b eid of
              Inl e \<Rightarrow> Inl e
            | Inr p \<Rightarrow>
                if ents b p = None then Inl KeyError
                else Inr (b\<lparr>grid := (grid b)(p := False),
                           ents := (ents b)(p := None),
                           loc := (loc b)(eid := None)\<rparr>)))"

text \<open>\<^verbatim>\<open>Board.move\<close>: five assertions, then the two grid writes and the four dictionary
  updates in the order of the source.\<close>

definition move :: "board \<Rightarrow> int \<Rightarrow> int \<Rightarrow> int \<Rightarrow> int \<Rightarrow> error + board" where
  "move b x y xf yf =
     (if \<not> inbounds b x y then Inl AssertionError
      else if \<not> inbounds b xf yf then Inl AssertionError
      else (case ents b (x, y) of
              None \<Rightarrow> Inl AssertionError
            | Some eid \<Rightarrow>
               (case used b x y of
                  Inl e \<Rightarrow> Inl e
                | Inr u \<Rightarrow>
                    if \<not> u then Inl AssertionError
                    else (case free b xf yf of
                            Inl e \<Rightarrow> Inl e
                          | Inr f \<Rightarrow>
                              if \<not> f then Inl AssertionError
                              else if loc b eid = None then Inl KeyError
                              else Inr (b\<lparr>grid := ((grid b)((x, y) := False))((xf, yf) := True),
                                         ents := ((ents b)((x, y) := None))((xf, yf) \<mapsto> eid),
                                         loc := ((loc b)(eid := None))(eid \<mapsto> (xf, yf))\<rparr>)))))"

text \<open>\<^verbatim>\<open>Board.near\<close>: the first handle must be on the board (assertion); the second need
  not be.\<close>

definition near :: "board \<Rightarrow> eid \<Rightarrow> eid \<Rightarrow> error + bool" where
  "near b eid1 eid2 =
     (if loc b eid1 = None then Inl AssertionError
      else if loc b eid2 = None then Inr False
      else if eid1 = eid2 then Inr True
      else (case query b eid1 of
              Inl e \<Rightarrow> Inl e
            | Inr (x1, y1) \<Rightarrow>
               (case query b eid2 of
                  Inl e \<Rightarrow> Inl e
                | Inr (x2, y2) \<Rightarrow>
                    Inr ((x1 + 1 = x2 \<and> y1 = y2) \<or> (x1 - 1 = x2 \<and> y1 = y2) \<or>
                         (x1 = x2 \<and> y1 + 1 = y2) \<or> (x1 = x2 \<and> y1 - 1 = y2)))))"

text \<open>Sequences of board operations, run until the first failed precondition.\<close>

datatype board_op = Add eid int int | Remove eid | Move int int int int

fun apply_board_op :: "board \<Rightarrow> board_op \<Rightarrow> error + board" where
  "apply_board_op b (Add e x y) = add b e x y"
| "apply_board_op b (Remove e) = remove b e"
| "apply_board_op b (Move x y xf yf) = move b x y xf yf"

fun run_board_ops :: "board \<Rightarrow> board_op list \<Rightarrow> error + board" where
  "run_board_ops b [] = Inr b"
| "run_board_ops b (p # ps) =
     (case apply_board_op b p of Inl e \<Rightarrow> Inl e | Inr b' \<Rightarrow> run_board_ops b' ps)"

text \<open>Every \<open>Add\<close> of the sequence names a handle that is not on the board at that
  moment.\<close>

fun is_fresh_op :: "board \<Rightarrow> board_op \<Rightarrow> bool" where
  "is_fresh_op b (Add e x y) = (loc b e = None)"
| "is_fresh_op b (Remove e) = True"
| "is_fresh_op b (Move x y xf yf) = True"

fun adds_fresh :: "board \<Rightarrow> board_op list \<Rightarrow> bool" where
  "adds_fresh b [] = True"
| "adds_fresh b (p # ps) =
     (is_fresh_op b p \<and>
      (case apply_board_op b p of Inl e \<Rightarrow> True | Inr b' \<Rightarrow> adds_fresh b' ps))"

fun is_Add :: "board_op \<Rightarrow> bool" where
  "is_Add (Add e x y) = True"
| "is_Add (Remove e) = False"
| "is_Add (Move x y xf yf) = False"

fun is_Remove :: "board_op \<Rightarrow> bool" where
  "is_Remove (Add e x y) = False"
| "is_Remove (Remove e) = True"
| "is_Remove (Move x y xf yf) = False"

text \<open>The board invariant: the two dictionaries are inverse to each other, the grid
  marks exactly the keys of \<open>ents\<close>, every stored coordinate is in bounds, and finitely
  many cells are occupied.\<close>

definition maps_inverse :: "board \<Rightarrow> bool" where
  "maps_inverse b = (\<forall>e p. (loc b e = Some p) = (ents b p = Some e))"

definition grid_marks_ents :: "board \<Rightarrow> bool" where
  "grid_marks_ents b = (\<forall>p. grid b p = (ents b p \<noteq> None))"

definition coords_inbounds :: "board \<Rightarrow> bool" where
  "coords_inbounds b = (\<forall>e x y. loc b e = Some (x, y) \<longrightarrow> inbounds b x y)"

definition board_inv :: "board \<Rightarrow> bool" where
  "board_inv b =
     (maps_inverse b \<and> grid_marks_ents b \<and> coords_inbounds b \<and> finite (dom (ents b)))"

subsection \<open>entity.py\<close>

text \<open>The concrete class of an entity (\<^verbatim>\<open>type(e)\<close>): \<^verbatim>\<open>Player\<close> or \<^verbatim>\<open>Enemy\<close>.\<close>

datatype kind = Player | Enemy

record entity =
  kind_of :: kind
  amod :: int
  dmod :: int
  hp :: int
  max_hp :: int
  ac :: int
  potions :: int
  ranged :: bool
  alive :: bool

text \<open>\<^verbatim>\<open>Entity.__init__\<close>: \<open>max_hp\<close> is the initial \<open>hp\<close>, and the entity starts alive.\<close>

definition Entity_new :: "kind \<Rightarrow> int \<Rightarrow> int \<Rightarrow> int \<Rightarrow> int \<Rightarrow> int \<Rightarrow> bool \<Rightarrow> entity" where
  "Entity_new k am dm h a p r =
     \<lparr>kind_of = k, amod = am, dmod = dm, hp = h, max_hp = h, ac = a, potions = p,
      ranged = r, alive = True\<rparr>"

definition is_alive :: "entity \<Rightarrow> bool" where
  "is_alive e = alive e"

text \<open>The dice are inputs: \<open>d20\<close> stands for \<^verbatim>\<open>utils.roll(20)\<close>, \<open>d6x2\<close> for
  \<^verbatim>\<open>utils.roll(6, 2)\<close> and \<open>d4x2\<close> for \<^verbatim>\<open>utils.roll(4, 2)\<close>.\<close>

definition roll_attack :: "entity \<Rightarrow> int \<Rightarrow> int" where
  "roll_attack e d20 = d20 + amod e"

definition roll_damage :: "entity \<Rightarrow> int \<Rightarrow> int" where
  "roll_damage e d6x2 = d6x2 + dmod e"

definition take_damage :: "entity \<Rightarrow> int \<Rightarrow> entity" where
  "take_damage e points = e\<lparr>hp := hp e - points, alive := (hp e - points > 0)\<rparr>"

definition heal :: "entity \<Rightarrow> int \<Rightarrow> entity" where
  "heal e points = (if alive e then e\<lparr>hp := min (max_hp e) (hp e + points)\<rparr> else e)"

definition use_potion :: "entity \<Rightarrow> int \<Rightarrow> entity \<times> int" where
  "use_potion e d4x2 =
     (if potions e > 0 then (e\<lparr>potions := potions e - 1\<rparr>, d4x2 + 2) else (e, 0))"

definition ally :: "entity \<Rightarrow> entity \<Rightarrow> bool" where
  "ally e1 e2 = (kind_of e1 = kind_of e2)"

definition enemy :: "entity \<Rightarrow> entity \<Rightarrow> bool" where
  "enemy e1 e2 = (\<not> ally e1 e2)"

text \<open>Sequences of \<open>take_damage\<close> and \<open>heal\<close> calls on one entity.\<close>

datatype hp_op = TakeDamage int | Heal int

fun apply_hp_op :: "entity \<Rightarrow> hp_op \<Rightarrow> entity" where
  "apply_hp_op e (TakeDamage n) = take_damage e n"
| "apply_hp_op e (Heal n) = heal e n"

fun run_hp_ops :: "entity \<Rightarrow> hp_op list \<Rightarrow> entity" where
  "run_hp_ops e [] = e"
| "run_hp_ops e (p # ps) = run_hp_ops (apply_hp_op e p) ps"

fun points_of :: "hp_op \<Rightarrow> int" where
  "points_of (TakeDamage n) = n"
| "points_of (Heal n) = n"

subsection \<open>game.py\<close>

text \<open>
  \<^verbatim>\<open>Game\<close>. The dictionaries \<open>agents\<close>, \<open>index_to_agent\<close> and the list \<open>order\<close> hold
  references to entity objects; an object is named by its handle and its fields live in
  \<open>heap\<close>, the store of entity objects (not a field of \<^verbatim>\<open>Game\<close>, but mutated by it).
  \<open>agents\<close> lists the keys of the dictionary in insertion order, \<open>initial_position\<close> is
  the dictionary as an association list in insertion order (\<^verbatim>\<open>reset\<close> iterates over it).
\<close>

record game =
  silence :: bool
  board :: board
  game_rows :: int
  game_cols :: int
  agents :: "eid list"
  order :: "eid list"
  initial_position :: "(eid \<times> cell) list"
  agent_index :: "eid \<rightharpoonup> int"
  index_to_agent :: "int \<rightharpoonup> eid"
  n_agents :: int
  label_map :: "eid \<rightharpoonup> string"
  dead :: "eid set"
  heap :: "eid \<Rightarrow> entity"

definition cell_dim :: int where
  "cell_dim = 5"

text \<open>The dice of one action: the three rolls an action can make.\<close>

record dice =
  d20 :: int
  d6x2 :: int
  d4x2 :: int

text \<open>The observation tensor of shape rows x cols x n_agents x 5, all zero but for the
  entries set to 1: it is given by the set of the indices that hold 1.\<close>

type_synonym tensor = "(int \<times> int \<times> int \<times> int) set"

text \<open>\<^verbatim>\<open>Game.__init__\<close>, with the store of entity objects that exist.\<close>

definition Game_new :: "int \<Rightarrow> int \<Rightarrow> bool \<Rightarrow> (eid \<Rightarrow> entity) \<Rightarrow> error + game" where
  "Game_new r c s h =
     (case Board_new r c of
        Inl e \<Rightarrow> Inl e
      | Inr b \<Rightarrow>
          Inr \<lparr>silence = s, board = b, game_rows = r, game_cols = c, agents = [], order = [],
               initial_position = [], agent_index = Map.empty, index_to_agent = Map.empty,
               n_agents = 0, label_map = Map.empty, dead = {}, heap = h\<rparr>)"

text \<open>\<^verbatim>\<open>Game.initiative\<close>: \<open>shuffle\<close> stands for \<^verbatim>\<open>random.shuffle\<close>, which permutes the list.\<close>

definition initiative :: "(eid list \<Rightarrow> eid list) \<Rightarrow> game \<Rightarrow> game" where
  "initiative shuffle g = g\<lparr>order := shuffle (agents g)\<rparr>"

text \<open>\<^verbatim>\<open>Game.add\<close> (registration). The label is checked for its length only.\<close>

definition game_add :: "game \<Rightarrow> eid \<Rightarrow> int \<Rightarrow> int \<Rightarrow> string \<Rightarrow> error + game" where
  "game_add g eid x y label =
     (if length label \<noteq> 2 then Inl AssertionError
      else if eid \<in> set (agents g) then Inl AssertionError
      else (case add (board g) eid x y of
              Inl e \<Rightarrow> Inl e
            | Inr b \<Rightarrow>
                Inr (g\<lparr>board := b,
                       agents := agents g @ [eid],
                       initial_position := AList.update eid (x, y) (initial_position g),
                       label_map := (label_map g)(eid \<mapsto> label),
                       agent_index := (agent_index g)(eid \<mapsto> n_agents g),
                       index_to_agent := (index_to_agent g)(n_agents g \<mapsto> eid),
                       n_agents := n_agents g + 1\<rparr>)))"

text \<open>\<^verbatim>\<open>Game.pop\<close>.\<close>

definition pop :: "game \<Rightarrow> error + (eid \<times> game)" where
  "pop g =
     (case order g of
        [] \<Rightarrow> Inl AssertionError
      | a # rest \<Rightarrow> Inr (a, g\<lparr>order := rest @ [a]\<rparr>))"

text \<open>The label lookups of the \<^verbatim>\<open>print\<close> calls, made only when the game is not silenced.\<close>

definition labels_known :: "game \<Rightarrow> eid list \<Rightarrow> bool" where
  "labels_known g es = (silence g \<or> list_all (\<lambda>e. label_map g e \<noteq> None) es)"

text \<open>\<^verbatim>\<open>Game.handle_attack\<close>. \<open>is_enemy\<close> is \<open>\<not> is_ally\<close>, so the last branch of the reward
  table is the \<^verbatim>\<open>elif is_enemy\<close> of the source.\<close>

definition handle_attack :: "game \<Rightarrow> eid \<Rightarrow> int \<Rightarrow> int \<Rightarrow> int \<Rightarrow> error + (game \<times> int)" where
  "handle_attack g agent action r20 r6 =
     (case index_to_agent g action of
        None \<Rightarrow> Inl KeyError
      | Some target \<Rightarrow>
          if \<not> labels_known g [agent, target] then Inl KeyError
          else
            let hit = (roll_attack (heap g agent) r20 \<ge> ac (heap g target)) in
            (case (if ranged (heap g agent) then Inr True else near (board g) agent target) of
               Inl e \<Rightarrow> Inl e
             | Inr reachable \<Rightarrow>
                 let damage = roll_damage (heap g agent) r6;
                     is_self = (target = agent);
                     is_ally = ally (heap g agent) (heap g target)
                 in
                 if target \<in> dead g then Inr (g, - 1)
                 else if \<not> reachable then Inr (g, - 1)
                 else if hit then
                   let g1 = g\<lparr>heap := (heap g)(target := take_damage (heap g target) damage)\<rparr>;
                       reward = (if is_self then - 2 * damage
                                 else if is_ally then - damage
                                 else damage)
                   in
                   if \<not> is_alive (heap g1 target) then
                     let g2 = g1\<lparr>dead := insert target (dead g1)\<rparr> in
                     if target \<notin> set (order g2) then Inl ValueError
                     else
                       let g3 = g2\<lparr>order := remove1 target (order g2)\<rparr> in
                       (case remove (board g3) target of
                          Inl e \<Rightarrow> Inl e
                        | Inr b \<Rightarrow> Inr (g3\<lparr>board := b\<rparr>, reward * 2))
                   else Inr (g1, reward)
                 else Inr (g, - 1)))"

text \<open>\<^verbatim>\<open>Game.handle_heal\<close>: \<open>near\<close> is evaluated first, then the potion is used, then the
  three rejections are tested in the order of the source.\<close>

definition handle_heal :: "game \<Rightarrow> eid \<Rightarrow> int \<Rightarrow> int \<Rightarrow> error + (game \<times> int)" where
  "handle_heal g agent action r4 =
     (case index_to_agent g action of
        None \<Rightarrow> Inl KeyError
      | Some target \<Rightarrow>
          if \<not> labels_known g [agent, target] then Inl KeyError
          else
            (case near (board g) agent target of
               Inl e \<Rightarrow> Inl e
             | Inr reachable \<Rightarrow>
                 let (a', points) = use_potion (heap g agent) r4;
                     g1 = g\<lparr>heap := (heap g)(agent := a')\<rparr>;
                     is_self = (target = agent);
                     is_ally = ally (heap g1 agent) (heap g1 target)
                 in
                 if points = 0 then Inr (g1, - 1)
                 else if \<not> is_alive (heap g1 target) then Inr (g1, - 1)
                 else if \<not> reachable then Inr (g1, - 1)
                 else
                   let reward = (if is_self then points
                                 else if is_ally then points
                                 else - points)
                   in Inr (g1\<lparr>heap := (heap g1)(target := heal (heap g1 target) points)\<rparr>,
                           reward)))"

text \<open>The four move handlers differ in the unit vector only; \<open>handle_shift\<close> is their
  common body.\<close>

definition handle_shift :: "game \<Rightarrow> eid \<Rightarrow> int \<Rightarrow> int \<Rightarrow> error + (game \<times> int)" where
  "handle_shift g agent dx dy =
     (if \<not> labels_known g [agent] then Inl KeyError
      else (case query (board g) agent of
              Inl e \<Rightarrow> Inl e
            | Inr (x, y) \<Rightarrow>
                let xf = x + dx; yf = y + dy in
                if inbounds (board g) xf yf \<and> free (board g) xf yf = Inr True then
                  (case move (board g) x y xf yf of
                     Inl e \<Rightarrow> Inl e
                   | Inr b \<Rightarrow> Inr (g\<lparr>board := b\<rparr>, 0))
                else Inr (g, - 1)))"

definition handle_up :: "game \<Rightarrow> eid \<Rightarrow> error + (game \<times> int)" where
  "handle_up g agent = handle_shift g agent (- 1) 0"

definition handle_down :: "game \<Rightarrow> eid \<Rightarrow> error + (game \<times> int)" where
  "handle_down g agent = handle_shift g agent 1 0"

definition handle_left :: "game \<Rightarrow> eid \<Rightarrow> error + (game \<times> int)" where
  "handle_left g agent = handle_shift g agent 0 (- 1)"

definition handle_right :: "game \<Rightarrow> eid \<Rightarrow> error + (game \<times> int)" where
  "handle_right g agent = handle_shift g agent 0 1"

text \<open>A NumPy index into an axis of length \<open>d\<close>: a negative index counts from the
  end, anything else out of range raises.\<close>

definition np_index :: "int \<Rightarrow> int \<Rightarrow> error + int" where
  "np_index d i =
     (if 0 \<le> i \<and> i < d then Inr i
      else if - d \<le> i \<and> i < 0 then Inr (i + d)
      else Inl IndexError)"

text \<open>The category of an entity of the order, seen by the current agent.\<close>

definition category :: "game \<Rightarrow> eid \<Rightarrow> eid \<Rightarrow> error + int" where
  "category g current e =
     (if e = current then Inr 0
      else if ranged (heap g e) = False \<and> ally (heap g e) (heap g current) then Inr 1
      else if ranged (heap g e) \<and> ally (heap g e) (heap g current) then Inr 2
      else if ranged (heap g e) = False \<and> \<not> ally (heap g e) (heap g current) then Inr 3
      else if ranged (heap g e) \<and> \<not> ally (heap g e) (heap g current) then Inr 4
      else Inl ValueError)"

text \<open>The loop of \<^verbatim>\<open>Game.generate_state\<close> over the initiative order.\<close>

fun mark_agents :: "game \<Rightarrow> eid \<Rightarrow> eid list \<Rightarrow> tensor \<Rightarrow> error + tensor" where
  "mark_agents g current [] st = Inr st"
| "mark_agents g current (e # es) st =
     (case query (board g) e of
        Inl err \<Rightarrow> Inl err
      | Inr (x, y) \<Rightarrow>
         (case agent_index g e of
            None \<Rightarrow> Inl KeyError
          | Some i \<Rightarrow>
             (case category g current e of
                Inl err \<Rightarrow> Inl err
              | Inr c \<Rightarrow>
                 (case (np_index (game_rows g) x, np_index (game_cols g) y,
                        np_index (n_agents g) i) of
                    (Inr x', Inr y', Inr i') \<Rightarrow>
                      mark_agents g current es (insert (x', y', i', c) st)
                  | _ \<Rightarrow> Inl IndexError))))"

definition generate_state :: "game \<Rightarrow> eid \<Rightarrow> error + tensor" where
  "generate_state g current =
     (if game_rows g < 0 \<or> game_cols g < 0 \<or> n_agents g < 0 then Inl ValueError
      else mark_agents g current (order g) {})"

text \<open>The end of \<^verbatim>\<open>Game.apply_action\<close>: the state seen by the acting agent is generated
  after the handler has returned its reward.\<close>

definition with_state :: "eid \<Rightarrow> error + (game \<times> int) \<Rightarrow> error + (tensor \<times> int \<times> game)" where
  "with_state agent r =
     (case r of
        Inl e \<Rightarrow> Inl e
      | Inr (g', reward) \<Rightarrow>
         (case generate_state g' agent of
            Inl e \<Rightarrow> Inl e
          | Inr outcome_state \<Rightarrow> Inr (outcome_state, reward, g')))"

text \<open>\<^verbatim>\<open>Game.apply_action\<close>: the chain of range tests of the source.\<close>

definition apply_action :: "game \<Rightarrow> eid \<Rightarrow> int \<Rightarrow> dice \<Rightarrow> error + (tensor \<times> int \<times> game)" where
  "apply_action g agent action ds =
     (if action \<ge> 0 \<and> action < n_agents g then
        with_state agent (handle_attack g agent action (d20 ds) (d6x2 ds))
      else if action \<ge> n_agents g \<and> action < 2 * n_agents g then
        with_state agent (handle_heal g agent (action - n_agents g) (d4x2 ds))
      else if action = 2 * n_agents g then with_state agent (handle_up g agent)
      else if action = 2 * n_agents g + 1 then with_state agent (handle_down g agent)
      else if action = 2 * n_agents g + 2 then with_state agent (handle_left g agent)
      else if action = 2 * n_agents g + 3 then with_state agent (handle_right g agent)
      else Inl ValueError)"

text \<open>The termination test of \<^verbatim>\<open>Game.step\<close>: every pair of the order is a pair of
  allies.\<close>

definition all_allies :: "game \<Rightarrow> bool" where
  "all_allies g =
     list_all (\<lambda>x. list_all (\<lambda>y. ally (heap g x) (heap g y)) (order g)) (order g)"

text \<open>\<^verbatim>\<open>Game.step\<close>: outcome state, reward, done, next state, next agent, and the game
  after the step.\<close>

definition step ::
  "game \<Rightarrow> eid \<Rightarrow> int \<Rightarrow> dice \<Rightarrow> error + (tensor \<times> int \<times> bool \<times> tensor \<times> eid \<times> game)" where
  "step g agent action ds =
     (case apply_action g agent action ds of
        Inl e \<Rightarrow> Inl e
      | Inr (outcome_state, reward, g1) \<Rightarrow>
          let done = all_allies g1 in
          (case pop g1 of
             Inl e \<Rightarrow> Inl e
           | Inr (next_agent, g2) \<Rightarrow>
              (case generate_state g2 next_agent of
                 Inl e \<Rightarrow> Inl e
               | Inr next_state \<Rightarrow>
                   Inr (outcome_state, reward, done, next_state, next_agent, g2))))"

text \<open>The loop of \<^verbatim>\<open>Game.reset\<close> over \<^verbatim>\<open>initial_position.items()\<close>.\<close>

fun place_all :: "board \<Rightarrow> (eid \<times> cell) list \<Rightarrow> error + board" where
  "place_all b [] = Inr b"
| "place_all b ((e, (x, y)) # ps) =
     (case add b e x y of Inl err \<Rightarrow> Inl err | Inr b' \<Rightarrow> place_all b' ps)"

text \<open>\<^verbatim>\<open>Game.reset\<close>: starting state, starting agent, and the game after the reset.\<close>

definition reset :: "(eid list \<Rightarrow> eid list) \<Rightarrow> game \<Rightarrow> error + (tensor \<times> eid \<times> game)" where
  "reset shuffle g =
     (let g1 = initiative shuffle g in
      case Board_new (game_rows g1) (game_cols g1) of
        Inl e \<Rightarrow> Inl e
      | Inr b0 \<Rightarrow>
          let g2 = g1\<lparr>board := b0, dead := {}\<rparr> in
          (case place_all (board g2) (initial_position g2) of
             Inl e \<Rightarrow> Inl e
           | Inr b \<Rightarrow>
               let g3 = g2\<lparr>board := b\<rparr> in
               (case pop g3 of
                  Inl e \<Rightarrow> Inl e
                | Inr (starting_agent, g4) \<Rightarrow>
                   (case generate_state g4 starting_agent of
                      Inl e \<Rightarrow> Inl e
                    | Inr state \<Rightarrow> Inr (state, starting_agent, g4)))))"

text \<open>Registering a list of entities, one \<^verbatim>\<open>Game.add\<close> after the other.\<close>

fun register_all :: "game \<Rightarrow> (eid \<times> int \<times> int \<times> string) list \<Rightarrow> error + game" where
  "register_all g [] = Inr g"
| "register_all g ((e, x, y, l) # rs) =
     (case game_add g e x y l of Inl err \<Rightarrow> Inl err | Inr g' \<Rightarrow> register_all g' rs)"

text \<open>The registry invariant: the entities registered so far are distinct, there are
  \<open>n_agents\<close> of them, and the i-th one has index i in both index dictionaries.\<close>

definition reg_inv :: "game \<Rightarrow> bool" where
  "reg_inv g =
     (distinct (agents g) \<and> n_agents g = int (length (agents g)) \<and>
      dom (agent_index g) = set (agents g) \<and>
      (\<forall>i < length (agents g).
         agent_index g (agents g ! i) = Some (int i) \<and>
         index_to_agent g (int i) = Some (agents g ! i)))"

subsection \<open>Example states\<close>

text \<open>Two players and one enemy on a board of one row, with the statistics of
  \<^verbatim>\<open>driver.py\<close>; entity 3 is a player with a single hit point and no potion. The game is
  in the state that registering 1, 2, 3 and then resetting (with a shuffle that keeps the
  order) leaves: entity 1 is to act.\<close>

definition example_heap :: "eid \<Rightarrow> entity" where
  "example_heap =
     (\<lambda>_. Entity_new Player 3 3 20 10 1 False)
       (2 := Entity_new Enemy 3 3 15 10 1 False,
        3 := Entity_new Player 3 3 1 10 0 False)"

definition example_board :: board where
  "example_board =
     \<lparr>grid = (\<lambda>_. False)((0, 0) := True, (0, 1) := True, (0, 2) := True),
      rows = 1, cols = 3,
      ents = [(0, 0) \<mapsto> 1, (0, 1) \<mapsto> 2, (0, 2) \<mapsto> 3],
      loc = [1 \<mapsto> (0, 0), 2 \<mapsto> (0, 1), 3 \<mapsto> (0, 2)]\<rparr>"

definition example_game :: game where
  "example_game =
     \<lparr>silence = False, board = example_board, game_rows = 1, game_cols = 3,
      agents = [1, 2, 3], order = [2, 3, 1],
      initial_position = [(1, (0, 0)), (2, (0, 1)), (3, (0, 2))],
      agent_index = [1 \<mapsto> 0, 2 \<mapsto> 1, 3 \<mapsto> 2],
      index_to_agent = [0 \<mapsto> 1, 1 \<mapsto> 2, 2 \<mapsto> 3],
      n_agents = 3,
      label_map = [1 \<mapsto> ''P1'', 2 \<mapsto> ''E1'', 3 \<mapsto> ''P2''],
      dead = {}, heap = example_heap\<rparr>"

text \<open>The example game after the enemy has killed entity 3 with 10 points of damage.\<close>

definition example_killed :: game where
  "example_killed =
     example_game
       \<lparr>heap := example_heap(3 := (example_heap 3)\<lparr>hp := - 9, alive := False\<rparr>),
        dead := {3}, order := [2, 1],
        board := example_board
          \<lparr>grid := (grid example_board)((0, 2) := False),
           ents := (ents example_board)((0, 2) := None),
           loc := (loc example_board)(3 := None)\<rparr>\<rparr>"

text \<open>The same game after the next reset: the dead set is empty and entity 3 is back on
  the board and in the order, with the hit points and the alive flag it died with.\<close>

definition example_corpse :: game where
  "example_corpse = example_killed\<lparr>dead := {}, order := [2, 3, 1], board := example_board\<rparr>"

text \<open>Entity 3 alone on a board of one cell, registered and reset: it is its turn.\<close>

definition lone_board :: board where
  "lone_board =
     \<lparr>grid = (\<lambda>_. False)((0, 0) := True), rows = 1, cols = 1,
      ents = [(0, 0) \<mapsto> 3], loc = [3 \<mapsto> (0, 0)]\<rparr>"

definition lone_game :: game where
  "lone_game =
     \<lparr>silence = False, board = lone_board, game_rows = 1, game_cols = 1,
      agents = [3], order = [3], initial_position = [(3, (0, 0))],
      agent_index = [3 \<mapsto> 0], index_to_agent = [0 \<mapsto> 3], n_agents = 1,
      label_map = [3 \<mapsto> ''P3''], dead = {}, heap = example_heap\<rparr>"

definition example_dice :: dice where
  "example_dice = \<lparr>d20 = 15, d6x2 = 7, d4x2 = 5\<rparr>"

definition strong_dice :: dice where
  "strong_dice = \<lparr>d20 = 15, d6x2 = 12, d4x2 = 5\<rparr>"

text \<open>The invariant of the hit points: never above the maximum, and the alive flag says
  whether they are positive.\<close>

definition hp_ok :: "entity \<Rightarrow> bool" where
  "hp_ok e = (hp e \<le> max_hp e \<and> alive e = (0 < hp e))"

section \<open>Entity: hit points and the alive flag\<close>

lemma apply_hp_op_ok:
  "0 \<le> points_of p \<Longrightarrow> hp_ok e \<Longrightarrow> hp_ok (apply_hp_op e p)"
  unfolding hp_ok_def by (cases p) (auto simp: take_damage_def heal_def)

lemma apply_hp_op_dead:
  "0 \<le> points_of p \<Longrightarrow> hp_ok e \<Longrightarrow> \<not> alive e \<Longrightarrow> \<not> alive (apply_hp_op e p)"
  unfolding hp_ok_def by (cases p) (auto simp: take_damage_def heal_def)

lemma run_hp_ops_ok:
  "\<forall>p\<in>set ops. 0 \<le> points_of p \<Longrightarrow> hp_ok e \<Longrightarrow> hp_ok (run_hp_ops e ops)"
  by (induction ops arbitrary: e) (simp_all add: apply_hp_op_ok)

lemma run_hp_ops_dead:
  "\<forall>p\<in>set ops. 0 \<le> points_of p \<Longrightarrow> hp_ok e \<Longrightarrow> \<not> alive e \<Longrightarrow> \<not> alive (run_hp_ops e ops)"
  by (induction ops arbitrary: e) (simp_all add: apply_hp_op_ok apply_hp_op_dead)

lemma run_hp_ops_append: "run_hp_ops e (xs @ ys) = run_hp_ops (run_hp_ops e xs) ys"
  by (induction xs arbitrary: e) auto

text \<open>
  Claim C6, as the code has it. For an entity created with positive hit points and any
  sequence of \<open>take_damage\<close> and \<open>heal\<close> calls with non-negative points: the hit points
  never exceed \<open>max_hp\<close>, the alive flag equals \<open>hp > 0\<close>, and once the flag is false it
  stays false whatever calls follow, \<open>heal\<close> on a dead entity changing nothing. The hit
  points are not bounded below by 0: \<open>take_damage\<close> subtracts without clamping.
\<close>

theorem entity_hp_invariant:
  assumes "0 < h" and "\<forall>p\<in>set (ops1 @ ops2). 0 \<le> points_of p"
  shows "hp (run_hp_ops (Entity_new k am dm h a p r) ops1)
           \<le> max_hp (run_hp_ops (Entity_new k am dm h a p r) ops1) \<and>
         alive (run_hp_ops (Entity_new k am dm h a p r) ops1)
           = (0 < hp (run_hp_ops (Entity_new k am dm h a p r) ops1)) \<and>
         (\<not> alive (run_hp_ops (Entity_new k am dm h a p r) ops1) \<longrightarrow>
            \<not> alive (run_hp_ops (Entity_new k am dm h a p r) (ops1 @ ops2)) \<and>
            heal (run_hp_ops (Entity_new k am dm h a p r) ops1) n
              = run_hp_ops (Entity_new k am dm h a p r) ops1)"
proof -
  let ?e0 = "Entity_new k am dm h a p r"
  have i0: "hp_ok ?e0"
    using assms(1) by (simp add: Entity_new_def hp_ok_def)
  have a1: "\<forall>p\<in>set ops1. 0 \<le> points_of p" and a2: "\<forall>p\<in>set ops2. 0 \<le> points_of p"
    using assms(2) by auto
  have r1: "hp_ok (run_hp_ops ?e0 ops1)"
    by (rule run_hp_ops_ok [OF a1 i0])
  have r2: "\<not> alive (run_hp_ops ?e0 ops1) \<Longrightarrow> \<not> alive (run_hp_ops ?e0 (ops1 @ ops2))"
    unfolding run_hp_ops_append by (rule run_hp_ops_dead [OF a2 r1])
  have r3: "\<not> alive (run_hp_ops ?e0 ops1) \<Longrightarrow> heal (run_hp_ops ?e0 ops1) n = run_hp_ops ?e0 ops1"
    by (simp add: heal_def)
  from r1 have "hp (run_hp_ops ?e0 ops1) \<le> max_hp (run_hp_ops ?e0 ops1)"
    and "alive (run_hp_ops ?e0 ops1) = (0 < hp (run_hp_ops ?e0 ops1))"
    unfolding hp_ok_def by blast+
  with r2 r3 show ?thesis by blast
qed

text \<open>The invariant at a concrete entity: 5 hit points, 7 damage, then a heal.\<close>

theorem entity_hp_invariant_witness:
  "hp (run_hp_ops (Entity_new Player 3 3 5 10 1 False) [TakeDamage 7, Heal 4]) = - 2 \<and>
   max_hp (run_hp_ops (Entity_new Player 3 3 5 10 1 False) [TakeDamage 7, Heal 4]) = 5 \<and>
   \<not> alive (run_hp_ops (Entity_new Player 3 3 5 10 1 False) [TakeDamage 7]) \<and>
   \<not> alive (run_hp_ops (Entity_new Player 3 3 5 10 1 False) ([TakeDamage 7] @ [Heal 4, TakeDamage 0])) \<and>
   hp (run_hp_ops (Entity_new Player 3 3 5 10 1 False) [TakeDamage 2, Heal 9]) = 5"
  using entity_hp_invariant [of 5 "[TakeDamage 7]" "[Heal 4, TakeDamage 0]" Player 3 3 10 1 False 4]
  by (simp add: Entity_new_def take_damage_def heal_def)

text \<open>Claim C6 as stated fails: 7 damage on 5 hit points leaves \<open>hp = - 2\<close>.\<close>

theorem hp_below_zero_counterexample:
  "\<not> (0 \<le> hp (run_hp_ops (Entity_new Player 3 3 5 10 1 False) [TakeDamage 7]))"
  by (simp add: Entity_new_def take_damage_def)

section \<open>Board: the invariant of add, remove and move\<close>

lemma Board_new_inv: "Board_new r c = Inr b \<Longrightarrow> board_inv b \<and> dom (ents b) = {}"
  by (auto simp: Board_new_def board_inv_def maps_inverse_def grid_marks_ents_def
      coords_inbounds_def split: if_splits)

lemma inv_loc_ents: "board_inv b \<Longrightarrow> (loc b e = Some p) = (ents b p = Some e)"
  unfolding board_inv_def maps_inverse_def by blast

lemma inv_grid: "board_inv b \<Longrightarrow> grid b p = (ents b p \<noteq> None)"
  unfolding board_inv_def grid_marks_ents_def by blast

lemma inv_coords: "board_inv b \<Longrightarrow> loc b e = Some (x, y) \<Longrightarrow> inbounds b x y"
  unfolding board_inv_def coords_inbounds_def by blast

lemma inv_finite: "board_inv b \<Longrightarrow> finite (dom (ents b))"
  unfolding board_inv_def by blast

lemma board_invI:
  assumes "\<And>e p. (loc b e = Some p) = (ents b p = Some e)"
    and "\<And>p. grid b p = (ents b p \<noteq> None)"
    and "\<And>e x y. loc b e = Some (x, y) \<Longrightarrow> inbounds b x y"
    and "finite (dom (ents b))"
  shows "board_inv b"
  unfolding board_inv_def maps_inverse_def grid_marks_ents_def coords_inbounds_def
  using assms by blast

lemma add_Inr:
  assumes "add b e x y = Inr b'"
  shows "inbounds b x y \<and> \<not> grid b (x, y) \<and>
         b' = b\<lparr>grid := (grid b)((x, y) := True), ents := (ents b)((x, y) \<mapsto> e),
                 loc := (loc b)(e \<mapsto> (x, y))\<rparr>"
proof (cases "inbounds b x y")
  case False
  with assms show ?thesis by (simp add: add_def free_def)
next
  case True
  with assms show ?thesis by (cases "grid b (x, y)") (simp_all add: add_def free_def)
qed

lemma add_inv:
  assumes inv: "board_inv b" and fresh: "loc b e = None" and ad: "add b e x y = Inr b'"
  shows "board_inv b' \<and> card (dom (ents b')) = Suc (card (dom (ents b)))"
proof -
  from add_Inr [OF ad] have ib: "inbounds b x y" and fr: "\<not> grid b (x, y)"
    and b': "b' = b\<lparr>grid := (grid b)((x, y) := True), ents := (ents b)((x, y) \<mapsto> e),
                     loc := (loc b)(e \<mapsto> (x, y))\<rparr>"
    by blast+
  have L: "loc b' = (loc b)(e \<mapsto> (x, y))" and E: "ents b' = (ents b)((x, y) \<mapsto> e)"
    and G: "grid b' = (grid b)((x, y) := True)" and R: "rows b' = rows b" "cols b' = cols b"
    unfolding b' by simp_all
  from fr have en: "ents b (x, y) = None"
    using inv_grid [OF inv, of "(x, y)"] by simp
  have nl: "loc b e' \<noteq> Some (x, y)" for e'
    using inv_loc_ents [OF inv, of e' "(x, y)"] en by simp
  have ne: "ents b p \<noteq> Some e" for p
    using inv_loc_ents [OF inv, of e p] fresh by simp
  have 1: "(loc b' e' = Some p') = (ents b' p' = Some e')" for e' p'
  proof (cases "e' = e")
    case True
    then show ?thesis using ne [of p'] by (cases "p' = (x, y)") (auto simp: L E)
  next
    case False
    then show ?thesis using nl [of e'] inv_loc_ents [OF inv, of e' p']
      by (cases "p' = (x, y)") (auto simp: L E)
  qed
  have 2: "grid b' q = (ents b' q \<noteq> None)" for q
    using inv_grid [OF inv, of q] by (cases "q = (x, y)") (simp_all add: G E)
  have 3: "inbounds b' u v" if "loc b' e' = Some (u, v)" for e' u v
  proof (cases "e' = e")
    case True
    with that have "u = x" "v = y" by (simp_all add: L)
    with ib show ?thesis by (simp add: inbounds_def R)
  next
    case False
    with that have "loc b e' = Some (u, v)" by (simp add: L)
    from inv_coords [OF inv this] show ?thesis by (simp add: inbounds_def R)
  qed
  have fin: "finite (dom (ents b))" by (rule inv_finite [OF inv])
  have d: "dom (ents b') = insert (x, y) (dom (ents b))" by (simp add: E)
  have nin: "(x, y) \<notin> dom (ents b)" using en by (simp add: domIff)
  have 4: "finite (dom (ents b'))" using fin d by simp
  have c: "card (dom (ents b')) = Suc (card (dom (ents b)))"
    using fin nin d by simp
  have "board_inv b'"
  proof (rule board_invI)
    show "(loc b' e' = Some p') = (ents b' p' = Some e')" for e' p' by (rule 1)
    show "grid b' q = (ents b' q \<noteq> None)" for q by (rule 2)
    show "inbounds b' u v" if "loc b' e' = Some (u, v)" for e' u v using that by (rule 3)
    show "finite (dom (ents b'))" by (rule 4)
  qed
  with c show ?thesis by simp
qed

lemma remove_Inr:
  assumes "remove b e = Inr b'"
  shows "\<exists>p. loc b e = Some p \<and> ents b p \<noteq> None \<and>
         b' = b\<lparr>grid := (grid b)(p := False), ents := (ents b)(p := None),
                 loc := (loc b)(e := None)\<rparr>"
proof (cases "loc b e")
  case None
  with assms show ?thesis by (simp add: remove_def)
next
  case (Some p)
  with assms show ?thesis by (cases "ents b p") (simp_all add: remove_def query_def)
qed

lemma remove_inv:
  assumes inv: "board_inv b" and rm: "remove b e = Inr b'"
  shows "board_inv b' \<and> Suc (card (dom (ents b'))) = card (dom (ents b))"
proof -
  from remove_Inr [OF rm] obtain p where lp: "loc b e = Some p"
    and b': "b' = b\<lparr>grid := (grid b)(p := False), ents := (ents b)(p := None),
                     loc := (loc b)(e := None)\<rparr>"
    by blast
  have L: "loc b' = (loc b)(e := None)" and E: "ents b' = (ents b)(p := None)"
    and G: "grid b' = (grid b)(p := False)" and R: "rows b' = rows b" "cols b' = cols b"
    unfolding b' by simp_all
  from lp have ep: "ents b p = Some e"
    using inv_loc_ents [OF inv, of e p] by simp
  have 1: "(loc b' e' = Some p') = (ents b' p' = Some e')" for e' p'
  proof (cases "e' = e")
    case True
    then show ?thesis using inv_loc_ents [OF inv, of e p'] lp
      by (cases "p' = p") (auto simp: L E)
  next
    case False
    then show ?thesis using inv_loc_ents [OF inv, of e' p'] ep
      by (cases "p' = p") (auto simp: L E)
  qed
  have 2: "grid b' q = (ents b' q \<noteq> None)" for q
    using inv_grid [OF inv, of q] by (cases "q = p") (simp_all add: G E)
  have 3: "inbounds b' u v" if "loc b' e' = Some (u, v)" for e' u v
  proof -
    from that have "loc b e' = Some (u, v)" by (cases "e' = e") (simp_all add: L)
    from inv_coords [OF inv this] show ?thesis by (simp add: inbounds_def R)
  qed
  have fin: "finite (dom (ents b))" by (rule inv_finite [OF inv])
  have d: "dom (ents b') = dom (ents b) - {p}" by (simp add: E)
  have pin: "p \<in> dom (ents b)" using ep by (simp add: domIff)
  have 4: "finite (dom (ents b'))" using fin d by simp
  have c: "Suc (card (dom (ents b'))) = card (dom (ents b))"
    unfolding d using fin pin by (rule card_Suc_Diff1)
  have "board_inv b'"
  proof (rule board_invI)
    show "(loc b' e' = Some p') = (ents b' p' = Some e')" for e' p' by (rule 1)
    show "grid b' q = (ents b' q \<noteq> None)" for q by (rule 2)
    show "inbounds b' u v" if "loc b' e' = Some (u, v)" for e' u v using that by (rule 3)
    show "finite (dom (ents b'))" by (rule 4)
  qed
  with c show ?thesis by simp
qed

lemma move_Inr:
  assumes "move b x y xf yf = Inr b'"
  shows "\<exists>e. ents b (x, y) = Some e \<and> inbounds b x y \<and> inbounds b xf yf \<and> grid b (x, y) \<and>
           \<not> grid b (xf, yf) \<and> loc b e \<noteq> None \<and>
           b' = b\<lparr>grid := ((grid b)((x, y) := False))((xf, yf) := True),
                   ents := ((ents b)((x, y) := None))((xf, yf) \<mapsto> e),
                   loc := ((loc b)(e := None))(e \<mapsto> (xf, yf))\<rparr>"
proof -
  from assms have i1: "inbounds b x y" by (cases "inbounds b x y") (simp_all add: move_def)
  from assms i1 have i2: "inbounds b xf yf"
    by (cases "inbounds b xf yf") (simp_all add: move_def)
  from assms i1 i2 obtain e where ep: "ents b (x, y) = Some e"
    by (cases "ents b (x, y)") (simp_all add: move_def)
  from assms i1 i2 ep have g1: "grid b (x, y)"
    by (cases "grid b (x, y)") (simp_all add: move_def used_def free_def)
  from assms i1 i2 ep g1 have g2: "\<not> grid b (xf, yf)"
    by (cases "grid b (xf, yf)") (simp_all add: move_def used_def free_def)
  from assms i1 i2 ep g1 g2 have l: "loc b e \<noteq> None"
    by (cases "loc b e") (simp_all add: move_def used_def free_def)
  from assms i1 i2 ep g1 g2 l
  have "b' = b\<lparr>grid := ((grid b)((x, y) := False))((xf, yf) := True),
                   ents := ((ents b)((x, y) := None))((xf, yf) \<mapsto> e),
                   loc := ((loc b)(e := None))(e \<mapsto> (xf, yf))\<rparr>"
    by (simp add: move_def used_def free_def)
  with i1 i2 ep g1 g2 l show ?thesis by blast
qed

lemma move_inv:
  assumes inv: "board_inv b" and mv: "move b x y xf yf = Inr b'"
  shows "board_inv b' \<and> card (dom (ents b')) = card (dom (ents b))"
proof -
  from move_Inr [OF mv] obtain e where ep: "ents b (x, y) = Some e"
    and ib: "inbounds b xf yf" and fr: "\<not> grid b (xf, yf)"
    and b': "b' = b\<lparr>grid := ((grid b)((x, y) := False))((xf, yf) := True),
                     ents := ((ents b)((x, y) := None))((xf, yf) \<mapsto> e),
                     loc := ((loc b)(e := None))(e \<mapsto> (xf, yf))\<rparr>"
    by blast
  have L: "loc b' = (loc b)(e \<mapsto> (xf, yf))"
    and E: "ents b' = ((ents b)((x, y) := None))((xf, yf) \<mapsto> e)"
    and G: "grid b' = ((grid b)((x, y) := False))((xf, yf) := True)"
    and R: "rows b' = rows b" "cols b' = cols b"
    unfolding b' by simp_all
  from fr have en: "ents b (xf, yf) = None"
    using inv_grid [OF inv, of "(xf, yf)"] by simp
  have ne: "(x, y) \<noteq> (xf, yf)" using ep en by auto
  have lp: "loc b e = Some (x, y)" using inv_loc_ents [OF inv, of e "(x, y)"] ep by simp
  have nl: "loc b e' \<noteq> Some (xf, yf)" for e'
    using inv_loc_ents [OF inv, of e' "(xf, yf)"] en by simp
  have 1: "(loc b' e' = Some p') = (ents b' p' = Some e')" for e' p'
  proof (cases "p' = (xf, yf)")
    case True
    then show ?thesis using nl [of e'] by (cases "e' = e") (auto simp: L E)
  next
    case pf: False
    show ?thesis
    proof (cases "p' = (x, y)")
      case True
      then show ?thesis using pf ep inv_loc_ents [OF inv, of e' "(x, y)"]
        by (cases "e' = e") (auto simp: L E)
    next
      case False
      then show ?thesis using pf lp inv_loc_ents [OF inv, of e' p']
        by (cases "e' = e") (auto simp: L E)
    qed
  qed
  have 2: "grid b' q = (ents b' q \<noteq> None)" for q
    using inv_grid [OF inv, of q]
    by (cases "q = (xf, yf)"; cases "q = (x, y)") (simp_all add: G E)
  have 3: "inbounds b' u v" if "loc b' e' = Some (u, v)" for e' u v
  proof (cases "e' = e")
    case True
    with that have "u = xf" "v = yf" by (simp_all add: L)
    with ib show ?thesis by (simp add: inbounds_def R)
  next
    case False
    with that have "loc b e' = Some (u, v)" by (simp add: L)
    from inv_coords [OF inv this] show ?thesis by (simp add: inbounds_def R)
  qed
  have fin: "finite (dom (ents b))" by (rule inv_finite [OF inv])
  have d: "dom (ents b') = insert (xf, yf) (dom (ents b) - {(x, y)})" by (simp add: E)
  have pin: "(x, y) \<in> dom (ents b)" using ep by (simp add: domIff)
  have nin: "(xf, yf) \<notin> dom (ents b) - {(x, y)}" using en by (simp add: domIff)
  have 4: "finite (dom (ents b'))" using fin d by simp
  have "card (dom (ents b')) = Suc (card (dom (ents b) - {(x, y)}))"
    unfolding d using fin nin by simp
  also have "\<dots> = card (dom (ents b))" using fin pin by (rule card_Suc_Diff1)
  finally have c: "card (dom (ents b')) = card (dom (ents b))" .
  have "board_inv b'"
  proof (rule board_invI)
    show "(loc b' e' = Some p') = (ents b' p' = Some e')" for e' p' by (rule 1)
    show "grid b' q = (ents b' q \<noteq> None)" for q by (rule 2)
    show "inbounds b' u v" if "loc b' e' = Some (u, v)" for e' u v using that by (rule 3)
    show "finite (dom (ents b'))" by (rule 4)
  qed
  with c show ?thesis by simp
qed

lemma run_board_ops_inv:
  assumes "board_inv b" "run_board_ops b ops = Inr b'" "adds_fresh b ops"
  shows "board_inv b' \<and>
         card (dom (ents b')) + length (filter is_Remove ops)
           = card (dom (ents b)) + length (filter is_Add ops)"
  using assms
proof (induction ops arbitrary: b)
  case Nil
  then show ?case by simp
next
  case (Cons p ps)
  from Cons.prems(2) obtain b1 where s1: "apply_board_op b p = Inr b1"
    and r1: "run_board_ops b1 ps = Inr b'"
    by (cases "apply_board_op b p") simp_all
  from Cons.prems(3) s1 have fr: "is_fresh_op b p" and af: "adds_fresh b1 ps" by simp_all
  have st: "board_inv b1 \<and>
     card (dom (ents b1)) + (if is_Remove p then 1 else 0)
       = card (dom (ents b)) + (if is_Add p then 1 else 0)"
  proof (cases p)
    case (Add e x y)
    then show ?thesis using add_inv [OF Cons.prems(1), of e x y b1] s1 fr by simp
  next
    case (Remove e)
    then show ?thesis using remove_inv [OF Cons.prems(1), of e b1] s1 by simp
  next
    case (Move x y xf yf)
    then show ?thesis using move_inv [OF Cons.prems(1), of x y xf yf b1] s1 by simp
  qed
  then have i1: "board_inv b1" by blast
  from Cons.IH [OF i1 r1 af]
  have "card (dom (ents b')) + length (filter is_Remove ps)
           = card (dom (ents b1)) + length (filter is_Add ps)" and "board_inv b'" by blast+
  with st show ?case by (cases "is_Add p"; cases "is_Remove p") auto
qed

text \<open>
  Claim C7, as the code has it. For a sequence of add, remove and move operations on a new
  board whose assertions all hold, and in which every add names a handle that is not on
  the board at that moment: \<open>loc\<close> and \<open>ents\<close> are inverse to each other, every occupied
  cell holds exactly one entity, every stored coordinate is within the bounds of the board,
  and the number of occupied cells is the number of adds minus the number of removes.
\<close>

theorem board_ops_invariant:
  assumes "Board_new r c = Inr b0" and "run_board_ops b0 ops = Inr b" and "adds_fresh b0 ops"
  shows "(\<forall>e p. (loc b e = Some p) = (ents b p = Some e)) \<and>
         (\<forall>p. grid b p \<longrightarrow> (\<exists>!e. ents b p = Some e) \<and> (\<exists>!e. loc b e = Some p)) \<and>
         (\<forall>e x y. loc b e = Some (x, y) \<or> ents b (x, y) = Some e
             \<longrightarrow> 0 \<le> x \<and> x < rows b \<and> 0 \<le> y \<and> y < cols b) \<and>
         card {p. grid b p} + length (filter is_Remove ops) = length (filter is_Add ops)"
proof -
  from Board_new_inv [OF assms(1)] have i0: "board_inv b0" and d0: "dom (ents b0) = {}"
    by blast+
  from run_board_ops_inv [OF i0 assms(2,3)] d0
  have inv: "board_inv b"
    and cnt: "card (dom (ents b)) + length (filter is_Remove ops) = length (filter is_Add ops)"
    by simp_all
  have mi: "\<forall>e p. (loc b e = Some p) = (ents b p = Some e)"
    using inv_loc_ents [OF inv] by blast
  have one: "\<forall>p. grid b p \<longrightarrow> (\<exists>!e. ents b p = Some e) \<and> (\<exists>!e. loc b e = Some p)"
  proof (intro allI impI)
    fix p assume "grid b p"
    then obtain e where e: "ents b p = Some e" using inv_grid [OF inv, of p] by blast
    then have "\<exists>!e. ents b p = Some e" by simp
    moreover have "\<exists>!e. loc b e = Some p"
      using e inv_loc_ents [OF inv, of _ p] by (intro ex1I [of _ e]) simp_all
    ultimately show "(\<exists>!e. ents b p = Some e) \<and> (\<exists>!e. loc b e = Some p)" by blast
  qed
  have bnd: "\<forall>e x y. loc b e = Some (x, y) \<or> ents b (x, y) = Some e
             \<longrightarrow> 0 \<le> x \<and> x < rows b \<and> 0 \<le> y \<and> y < cols b"
  proof (intro allI impI)
    fix e x y assume "loc b e = Some (x, y) \<or> ents b (x, y) = Some e"
    then have "loc b e = Some (x, y)" using inv_loc_ents [OF inv, of e "(x, y)"] by blast
    from inv_coords [OF inv this] show "0 \<le> x \<and> x < rows b \<and> 0 \<le> y \<and> y < cols b"
      by (simp add: inbounds_def)
  qed
  have "{p. grid b p} = dom (ents b)" using inv_grid [OF inv] by (auto simp: domIff)
  with cnt have c: "card {p. grid b p} + length (filter is_Remove ops) = length (filter is_Add ops)"
    by simp
  show ?thesis by (intro conjI) (rule mi one bnd c)+
qed

lemmas board_eval = Board_new_def add_def remove_def move_def free_def used_def inbounds_def
  query_def

text \<open>The invariant on a 2 x 2 board after three adds, a move and a remove.\<close>

theorem board_ops_invariant_witness:
  "\<not> isl (Board_new 2 2) \<and>
   \<not> isl (run_board_ops (projr (Board_new 2 2))
            [Add 1 0 0, Add 2 1 1, Move 0 0 0 1, Remove 2, Add 2 0 0]) \<and>
   adds_fresh (projr (Board_new 2 2)) [Add 1 0 0, Add 2 1 1, Move 0 0 0 1, Remove 2, Add 2 0 0] \<and>
   card {p. grid (projr (run_board_ops (projr (Board_new 2 2))
            [Add 1 0 0, Add 2 1 1, Move 0 0 0 1, Remove 2, Add 2 0 0])) p} = 2 \<and>
   loc (projr (run_board_ops (projr (Board_new 2 2))
            [Add 1 0 0, Add 2 1 1, Move 0 0 0 1, Remove 2, Add 2 0 0])) 1 = Some (0, 1) \<and>
   ents (projr (run_board_ops (projr (Board_new 2 2))
            [Add 1 0 0, Add 2 1 1, Move 0 0 0 1, Remove 2, Add 2 0 0])) (0, 1) = Some 1"
proof -
  let ?ops = "[Add 1 0 0, Add 2 1 1, Move 0 0 0 1, Remove 2, Add 2 0 0]"
  obtain b0 where b0: "Board_new 2 2 = Inr b0" by (simp add: Board_new_def)
  have ex: "\<exists>b. run_board_ops b0 ?ops = Inr b"
    using b0 by (auto simp: board_eval)
  then obtain b where b: "run_board_ops b0 ?ops = Inr b" by blast
  have fr: "adds_fresh b0 ?ops"
    using b0 by (auto simp: board_eval)
  have l: "loc b 1 = Some (0, 1)"
    using b0 b by (auto simp: board_eval)
  have c: "card {p. grid b p} = 2"
    using board_ops_invariant [OF b0 b fr] by simp
  have e: "ents b (0, 1) = Some 1"
    using board_ops_invariant [OF b0 b fr] l by simp
  show ?thesis
    by (simp only: b0 b fr c l e sum.sel sum.disc simp_thms)
qed

text \<open>Claim C7 as stated fails: \<open>add\<close> checks the cell only, so adding a handle that is
  already on the board succeeds and leaves the old cell pointing at a handle whose
  location is the new cell.\<close>

theorem add_twice_counterexample:
  "\<not> isl (Board_new 1 2) \<and>
   \<not> isl (run_board_ops (projr (Board_new 1 2)) [Add 1 0 0, Add 1 0 1]) \<and>
   ents (projr (run_board_ops (projr (Board_new 1 2)) [Add 1 0 0, Add 1 0 1])) (0, 0) = Some 1 \<and>
   loc (projr (run_board_ops (projr (Board_new 1 2)) [Add 1 0 0, Add 1 0 1])) 1 = Some (0, 1)"
  by (simp add: board_eval)

section \<open>Board: adjacency\<close>

lemma near_sym:
  assumes "loc b a \<noteq> None" "loc b c \<noteq> None"
  shows "near b a c = near b c a"
proof -
  from assms obtain x1 y1 x2 y2 where "loc b a = Some (x1, y1)" "loc b c = Some (x2, y2)"
    by fastforce
  then show ?thesis by (auto simp: near_def query_def)
qed

text \<open>
  Claim C8, as the code has it. \<open>near h h\<close> returns true exactly when \<open>h\<close> is on the
  board, and fails with an assertion error when it is not; for two distinct handles that
  are both on the board \<open>near a c = near c a\<close>; \<open>near\<close> returns false when the first handle
  is on the board and the second is not, and fails with an assertion error whenever the
  first handle is off the board.
\<close>

theorem near_properties:
  "((near b h h = Inr True) = (loc b h \<noteq> None)) \<and>
   (loc b h = None \<longrightarrow> near b h h = Inl AssertionError) \<and>
   (a \<noteq> c \<and> loc b a \<noteq> None \<and> loc b c \<noteq> None \<longrightarrow> near b a c = near b c a) \<and>
   (loc b a \<noteq> None \<and> loc b c = None \<longrightarrow> near b a c = Inr False) \<and>
   (loc b a = None \<longrightarrow> near b a c = Inl AssertionError)"
proof (intro conjI impI)
  show "(near b h h = Inr True) = (loc b h \<noteq> None)" by (simp add: near_def)
  show "near b h h = Inl AssertionError" if "loc b h = None" using that by (simp add: near_def)
  show "near b a c = near b c a" if "a \<noteq> c \<and> loc b a \<noteq> None \<and> loc b c \<noteq> None"
    using that near_sym by blast
  show "near b a c = Inr False" if "loc b a \<noteq> None \<and> loc b c = None"
    using that by (simp add: near_def)
  show "near b a c = Inl AssertionError" if "loc b a = None" using that by (simp add: near_def)
qed

text \<open>Adjacency on a 1 x 3 board holding handles 1 and 2, with handle 3 absent.\<close>

theorem near_properties_witness:
  "near (projr (run_board_ops (projr (Board_new 1 3)) [Add 1 0 0, Add 2 0 1])) 1 1 = Inr True \<and>
   near (projr (run_board_ops (projr (Board_new 1 3)) [Add 1 0 0, Add 2 0 1])) 1 2
     = near (projr (run_board_ops (projr (Board_new 1 3)) [Add 1 0 0, Add 2 0 1])) 2 1 \<and>
   near (projr (run_board_ops (projr (Board_new 1 3)) [Add 1 0 0, Add 2 0 1])) 1 3 = Inr False \<and>
   near (projr (run_board_ops (projr (Board_new 1 3)) [Add 1 0 0, Add 2 0 1])) 3 3
     = Inl AssertionError \<and>
   near (projr (run_board_ops (projr (Board_new 1 3)) [Add 1 0 0, Add 2 0 1])) 3 1
     = Inl AssertionError"
proof -
  let ?b = "projr (run_board_ops (projr (Board_new 1 3)) [Add 1 0 0, Add 2 0 1])"
  have l: "loc ?b 1 \<noteq> None" "loc ?b 2 \<noteq> None" "loc ?b 3 = None"
    by (simp_all add: board_eval)
  from near_properties [of ?b 1 1 2] near_properties [of ?b 3 1 3] near_properties [of ?b 3 3 1] l
  show ?thesis by simp
qed

text \<open>Claim C8 as stated fails: with the first handle off the board the query raises,
  while the mirrored query returns false.\<close>

theorem near_off_board_counterexample:
  "near (projr (run_board_ops (projr (Board_new 1 3)) [Add 2 0 1])) 1 2 = Inl AssertionError \<and>
   near (projr (run_board_ops (projr (Board_new 1 3)) [Add 2 0 1])) 2 1 = Inr False"
  by (simp add: board_eval near_def)

section \<open>Game: action decoding\<close>

text \<open>
  Claim C4. With \<open>n \<ge> 1\<close> registered entities, an action in \<open>[0, n)\<close> is resolved by
  \<open>handle_attack\<close> on that index, an action in \<open>[n, 2n)\<close> by \<open>handle_heal\<close> on the index
  \<open>a - n\<close>, the actions \<open>2n\<close>, \<open>2n + 1\<close>, \<open>2n + 2\<close>, \<open>2n + 3\<close> by the handlers for up, down,
  left and right, and any action outside \<open>[0, 2n + 4)\<close> raises a ValueError instead of
  returning a reward.
\<close>

theorem apply_action_decoding:
  assumes "1 \<le> n_agents g"
  shows "(0 \<le> a \<and> a < n_agents g \<longrightarrow>
            apply_action g ag a ds
              = with_state ag (handle_attack g ag a (d20 ds) (d6x2 ds))) \<and>
         (n_agents g \<le> a \<and> a < 2 * n_agents g \<longrightarrow>
            apply_action g ag a ds
              = with_state ag (handle_heal g ag (a - n_agents g) (d4x2 ds))) \<and>
         apply_action g ag (2 * n_agents g) ds = with_state ag (handle_up g ag) \<and>
         apply_action g ag (2 * n_agents g + 1) ds = with_state ag (handle_down g ag) \<and>
         apply_action g ag (2 * n_agents g + 2) ds = with_state ag (handle_left g ag) \<and>
         apply_action g ag (2 * n_agents g + 3) ds = with_state ag (handle_right g ag) \<and>
         (a < 0 \<or> 2 * n_agents g + 4 \<le> a \<longrightarrow> apply_action g ag a ds = Inl ValueError)"
  using assms by (simp add: apply_action_def)

text \<open>The decoding in the example game of three entities.\<close>

theorem apply_action_decoding_witness:
  "1 \<le> n_agents example_game \<and>
   apply_action example_game 1 2 example_dice
     = with_state 1 (handle_attack example_game 1 2 15 7) \<and>
   apply_action example_game 1 4 example_dice
     = with_state 1 (handle_heal example_game 1 1 5) \<and>
   apply_action example_game 1 6 example_dice = with_state 1 (handle_up example_game 1) \<and>
   apply_action example_game 1 10 example_dice = Inl ValueError \<and>
   apply_action example_game 1 (- 1) example_dice = Inl ValueError"
proof -
  have n: "n_agents example_game = 3" by (simp add: example_game_def)
  have d: "d20 example_dice = 15" "d6x2 example_dice = 7" "d4x2 example_dice = 5"
    by (simp_all add: example_dice_def)
  have h: "1 \<le> n_agents example_game" by (simp add: n)
  from apply_action_decoding [OF h, of 2 1 example_dice]
    apply_action_decoding [OF h, of 4 1 example_dice]
    apply_action_decoding [OF h, of 10 1 example_dice]
    apply_action_decoding [OF h, of "- 1" 1 example_dice]
  show ?thesis by (simp add: n d)
qed

section \<open>Game: registration\<close>

lemma game_add_Inr:
  assumes "game_add g eid x y label = Inr g'"
  shows "length label = 2 \<and> eid \<notin> set (agents g) \<and>
         (\<exists>b. add (board g) eid x y = Inr b \<and>
              g' = g\<lparr>board := b,
                     agents := agents g @ [eid],
                     initial_position := AList.update eid (x, y) (initial_position g),
                     label_map := (label_map g)(eid \<mapsto> label),
                     agent_index := (agent_index g)(eid \<mapsto> n_agents g),
                     index_to_agent := (index_to_agent g)(n_agents g \<mapsto> eid),
                     n_agents := n_agents g + 1\<rparr>)"
proof -
  from assms have 1: "length label = 2" by (cases "length label = 2") (simp_all add: game_add_def)
  from assms 1 have 2: "eid \<notin> set (agents g)"
    by (cases "eid \<in> set (agents g)") (simp_all add: game_add_def)
  from assms 1 2 show ?thesis by (cases "add (board g) eid x y") (simp_all add: game_add_def)
qed

lemma game_add_fields:
  assumes "game_add g eid x y label = Inr g'"
  shows "agents g' = agents g @ [eid]" "n_agents g' = n_agents g + 1"
    "agent_index g' = (agent_index g)(eid \<mapsto> n_agents g)"
    "index_to_agent g' = (index_to_agent g)(n_agents g \<mapsto> eid)"
    "eid \<notin> set (agents g)"
  using game_add_Inr [OF assms] by auto

lemma game_add_reg_inv:
  assumes inv: "reg_inv g" and ad: "game_add g eid x y label = Inr g'"
  shows "reg_inv g'"
proof -
  note f = game_add_fields [OF ad]
  from inv have d: "distinct (agents g)" and n: "n_agents g = int (length (agents g))"
    and dm: "dom (agent_index g) = set (agents g)"
    and ix: "\<And>i. i < length (agents g) \<Longrightarrow>
               agent_index g (agents g ! i) = Some (int i) \<and>
               index_to_agent g (int i) = Some (agents g ! i)"
    unfolding reg_inv_def by blast+
  have 1: "distinct (agents g')" using d f(5) by (simp add: f(1))
  have 2: "n_agents g' = int (length (agents g'))" by (simp add: f(1,2) n)
  have 3: "dom (agent_index g') = set (agents g')" by (simp add: f(1,3) dm)
  have 4: "agent_index g' (agents g' ! i) = Some (int i) \<and>
           index_to_agent g' (int i) = Some (agents g' ! i)" if "i < length (agents g')" for i
  proof (cases "i < length (agents g)")
    case True
    then have ne: "agents g ! i \<noteq> eid" using f(5) nth_mem by metis
    from True have ni: "int i \<noteq> n_agents g" by (simp add: n)
    show ?thesis using True ne ni ix [OF True] by (simp add: f(1,3,4) nth_append)
  next
    case False
    with that have "i = length (agents g)" by (simp add: f(1))
    then show ?thesis by (simp add: f(1,3,4) n)
  qed
  show ?thesis unfolding reg_inv_def using 1 2 3 4 by blast
qed

lemma register_all_reg_inv:
  "reg_inv g \<Longrightarrow> register_all g regs = Inr g' \<Longrightarrow>
     reg_inv g' \<and> agents g' = agents g @ map fst regs"
proof (induction regs arbitrary: g)
  case Nil
  then show ?case by simp
next
  case (Cons r rs)
  obtain e x y l where r: "r = (e, x, y, l)" by (cases r) auto
  from Cons.prems(2) obtain g1 where g1: "game_add g e x y l = Inr g1"
    and rest: "register_all g1 rs = Inr g'"
    unfolding r by (cases "game_add g e x y l") simp_all
  from game_add_reg_inv [OF Cons.prems(1) g1] have i1: "reg_inv g1" .
  from Cons.IH [OF i1 rest] game_add_fields(1) [OF g1] show ?case by (simp add: r)
qed

lemma Game_new_reg_inv: "Game_new r c s h = Inr g \<Longrightarrow> reg_inv g \<and> agents g = []"
  by (cases "Board_new r c") (auto simp: Game_new_def reg_inv_def)

lemma game_add_fails:
  "length label \<noteq> 2 \<or> eid \<in> set (agents g) \<or> \<not> inbounds (board g) x y \<or> grid (board g) (x, y)
     \<Longrightarrow> game_add g eid x y label = Inl AssertionError"
  by (auto simp: game_add_def add_def free_def)

lemma game_add_succeeds:
  assumes "length label = 2" "eid \<notin> set (agents g)" "inbounds (board g) x y"
    "\<not> grid (board g) (x, y)"
  shows "\<exists>g'. game_add g eid x y label = Inr g'"
  using assms by (simp add: game_add_def add_def free_def)

text \<open>
  Claim C9, as the code has it. Registration fails when the label is not two characters
  long or the entity is already registered, and fails when the position is occupied or
  out of bounds; otherwise it succeeds and gives the entity the index \<open>n_agents\<close>. After
  registering a list of entities in a new game, the i-th of them has index i in both
  index dictionaries: the number of entities registered before it. No test compares the
  label with the labels already registered.
\<close>

theorem game_add_register:
  "(length label \<noteq> 2 \<or> eid \<in> set (agents g) \<longrightarrow>
      game_add g eid x y label = Inl AssertionError) \<and>
   (grid (board g) (x, y) \<or> \<not> inbounds (board g) x y \<longrightarrow>
      game_add g eid x y label = Inl AssertionError) \<and>
   (length label = 2 \<and> eid \<notin> set (agents g) \<and> inbounds (board g) x y \<and>
    \<not> grid (board g) (x, y) \<longrightarrow>
      (\<exists>g'. game_add g eid x y label = Inr g' \<and>
            agent_index g' eid = Some (n_agents g) \<and>
            index_to_agent g' (n_agents g) = Some eid \<and>
            n_agents g' = n_agents g + 1)) \<and>
   (Game_new r c s h = Inr g0 \<and> register_all g0 regs = Inr gN \<and> i < length regs \<longrightarrow>
      n_agents gN = int (length regs) \<and>
      agent_index gN (fst (regs ! i)) = Some (int i) \<and>
      index_to_agent gN (int i) = Some (fst (regs ! i)))"
proof (intro conjI impI)
  show "game_add g eid x y label = Inl AssertionError"
    if "length label \<noteq> 2 \<or> eid \<in> set (agents g)"
    using that game_add_fails [of label eid g x y] by blast
  show "game_add g eid x y label = Inl AssertionError"
    if "grid (board g) (x, y) \<or> \<not> inbounds (board g) x y"
    using that game_add_fails [of label eid g x y] by blast
  show "\<exists>g'. game_add g eid x y label = Inr g' \<and>
            agent_index g' eid = Some (n_agents g) \<and>
            index_to_agent g' (n_agents g) = Some eid \<and>
            n_agents g' = n_agents g + 1"
    if "length label = 2 \<and> eid \<notin> set (agents g) \<and> inbounds (board g) x y \<and>
        \<not> grid (board g) (x, y)"
  proof -
    from that game_add_succeeds [of label eid g x y]
    obtain g' where g': "game_add g eid x y label = Inr g'" by blast
    from game_add_fields [OF g'] g' show ?thesis by simp
  qed
next
  assume a: "Game_new r c s h = Inr g0 \<and> register_all g0 regs = Inr gN \<and> i < length regs"
  from a Game_new_reg_inv [of r c s h g0] have i0: "reg_inv g0" and a0: "agents g0 = []"
    by blast+
  from a register_all_reg_inv [OF i0, of regs gN]
  have iN: "reg_inv gN" and aN: "agents gN = map fst regs" by (simp_all add: a0)
  from a have il: "i < length (agents gN)" by (simp add: aN)
  from iN have n: "n_agents gN = int (length (agents gN))"
    and ix: "agent_index gN (agents gN ! i) = Some (int i) \<and>
             index_to_agent gN (int i) = Some (agents gN ! i)"
    using il unfolding reg_inv_def by blast+
  have nth: "agents gN ! i = fst (regs ! i)" using a by (simp add: aN)
  show "n_agents gN = int (length regs)" by (simp add: n aN)
  show "agent_index gN (fst (regs ! i)) = Some (int i)" using ix by (simp add: nth)
  show "index_to_agent gN (int i) = Some (fst (regs ! i))" using ix by (simp add: nth)
qed

lemmas game_eval = Game_new_def Board_new_def game_add_def add_def free_def inbounds_def

text \<open>Registration in the example game and in a new game.\<close>

theorem game_add_register_witness:
  "game_add example_game 1 0 0 ''P1'' = Inl AssertionError \<and>
   game_add example_game 7 0 1 ''XY'' = Inl AssertionError \<and>
   \<not> isl (Game_new 1 3 False example_heap) \<and>
   \<not> isl (game_add (projr (Game_new 1 3 False example_heap)) 5 0 2 ''P5'') \<and>
   agent_index (projr (game_add (projr (Game_new 1 3 False example_heap)) 5 0 2 ''P5'')) 5
     = Some 0 \<and>
   \<not> isl (register_all (projr (Game_new 1 3 False example_heap))
            [(1, 0, 0, ''P1''), (2, 0, 1, ''E1''), (3, 0, 2, ''P2'')]) \<and>
   agent_index (projr (register_all (projr (Game_new 1 3 False example_heap))
            [(1, 0, 0, ''P1''), (2, 0, 1, ''E1''), (3, 0, 2, ''P2'')])) 3 = Some 2"
proof -
  let ?regs = "[(1, 0, 0, ''P1''), (2, 0, 1, ''E1''), (3, 0, 2, ''P2'')]"
  obtain g0 where g0: "Game_new 1 3 False example_heap = Inr g0" by (simp add: game_eval)
  have g0f: "agents g0 = []" "n_agents g0 = 0" "inbounds (board g0) 0 2"
    "\<not> grid (board g0) (0, 2)"
    using g0 by (auto simp: game_eval)
  have "\<exists>g. register_all g0 ?regs = Inr g" using g0 by (auto simp: game_eval)
  then obtain gN where gN: "register_all g0 ?regs = Inr gN" by blast
  have e1: "length ''P1'' \<noteq> 2 \<or> 1 \<in> set (agents example_game)"
    by (simp add: example_game_def)
  have e2: "grid (board example_game) (0, 1) \<or> \<not> inbounds (board example_game) 0 1"
    by (simp add: example_game_def example_board_def)
  have e3: "length ''P5'' = 2 \<and> 5 \<notin> set (agents g0) \<and> inbounds (board g0) 0 2 \<and>
     \<not> grid (board g0) (0, 2)" using g0f by simp
  have e4: "Game_new 1 3 False example_heap = Inr g0 \<and> register_all g0 ?regs = Inr gN \<and>
     2 < length ?regs" using g0 gN by simp
  have w1: "game_add example_game 1 0 0 ''P1'' = Inl AssertionError"
    using game_add_register [of "''P1''" 1 example_game 0 0] e1 by blast
  have w2: "game_add example_game 7 0 1 ''XY'' = Inl AssertionError"
    using game_add_register [of "''XY''" 7 example_game 0 1] e2 by blast
  have "\<exists>g'. game_add g0 5 0 2 ''P5'' = Inr g' \<and> agent_index g' 5 = Some (n_agents g0) \<and>
            index_to_agent g' (n_agents g0) = Some 5 \<and> n_agents g' = n_agents g0 + 1"
    using game_add_register [of "''P5''" 5 g0 0 2 0 0 False example_heap g0 "[]" g0 0] e3
    by blast
  then obtain g5 where w3: "game_add g0 5 0 2 ''P5'' = Inr g5" "agent_index g5 5 = Some 0"
    using g0f(2) by auto
  have w4: "agent_index gN 3 = Some 2"
    using game_add_register [of _ _ _ _ _ 1 3 False example_heap g0 ?regs gN 2] e4 by simp
  show ?thesis by (simp only: g0 gN w1 w2 w3 w4 sum.sel sum.disc simp_thms)
qed

text \<open>Claim C9 as stated fails: two entities are registered under the same label.\<close>

theorem same_label_counterexample:
  "\<not> isl (Game_new 1 3 False example_heap) \<and>
   register_all (projr (Game_new 1 3 False example_heap))
      [(1, 0, 0, ''AA''), (2, 0, 1, ''AA'')] \<noteq> Inl AssertionError \<and>
   \<not> isl (register_all (projr (Game_new 1 3 False example_heap))
      [(1, 0, 0, ''AA''), (2, 0, 1, ''AA'')]) \<and>
   label_map (projr (register_all (projr (Game_new 1 3 False example_heap))
      [(1, 0, 0, ''AA''), (2, 0, 1, ''AA'')])) 1 = Some ''AA'' \<and>
   label_map (projr (register_all (projr (Game_new 1 3 False example_heap))
      [(1, 0, 0, ''AA''), (2, 0, 1, ''AA'')])) 2 = Some ''AA''"
  by (simp add: game_eval)

section \<open>Game: attack\<close>

lemma remove_ok:
  assumes "board_inv b" "loc b e \<noteq> None"
  shows "\<exists>b'. remove b e = Inr b' \<and> loc b' e = None \<and> board_inv b'"
proof -
  from assms(2) obtain p where p: "loc b e = Some p" by blast
  then have ep: "ents b p = Some e" using inv_loc_ents [OF assms(1), of e p] by simp
  let ?b = "b\<lparr>grid := (grid b)(p := False), ents := (ents b)(p := None),
              loc := (loc b)(e := None)\<rparr>"
  have r: "remove b e = Inr ?b" using p ep by (simp add: remove_def query_def)
  from remove_inv [OF assms(1) r] have "board_inv ?b" by blast
  with r show ?thesis by simp
qed

text \<open>
  Claim C1. The target of the action is not in the dead set and is reachable (the attacker
  is ranged or \<open>near\<close> returns true); it is on the board and in the initiative order, as
  every target outside the dead set is during an episode. The attack hits iff the d20 roll
  plus the attacker's modifier is at least the target's armor class. On a miss the reward is
  \<open>- 1\<close> and nothing changes. On a hit the damage \<open>2d6 + dmod\<close> is subtracted from the
  target's hit points; the reward is the damage times \<open>- 2\<close> for the attacker itself,
  \<open>- 1\<close> for another entity of the same kind and \<open>1\<close> for an entity of the other kind,
  doubled when the hit leaves the target not alive, in which case the target is removed
  from the board and from the order and added to the dead set.
\<close>

theorem handle_attack_living_reachable:
  assumes idx: "index_to_agent g action = Some target"
    and lab: "labels_known g [agent, target]"
    and liv: "target \<notin> dead g"
    and reach: "ranged (heap g agent) \<or> near (board g) agent target = Inr True"
    and inv: "board_inv (board g)" and onb: "loc (board g) target \<noteq> None"
    and ord: "target \<in> set (order g)" and dis: "distinct (order g)"
  shows "(r20 + amod (heap g agent) < ac (heap g target) \<longrightarrow>
            handle_attack g agent action r20 r6 = Inr (g, - 1)) \<and>
         (r20 + amod (heap g agent) \<ge> ac (heap g target) \<longrightarrow>
            (\<exists>g'. handle_attack g agent action r20 r6
                    = Inr (g', (if target = agent then - 2
                                else if kind_of (heap g agent) = kind_of (heap g target) then - 1
                                else 1) * (r6 + dmod (heap g agent))
                               * (if alive (heap g' target) then 1 else 2)) \<and>
                  hp (heap g' target) = hp (heap g target) - (r6 + dmod (heap g agent)) \<and>
                  alive (heap g' target) = (0 < hp (heap g' target)) \<and>
                  (alive (heap g' target) \<longrightarrow>
                     board g' = board g \<and> order g' = order g \<and> dead g' = dead g) \<and>
                  (\<not> alive (heap g' target) \<longrightarrow>
                     loc (board g') target = None \<and> target \<notin> set (order g') \<and>
                     target \<in> dead g')))"
proof (intro conjI impI)
  have rc: "(if ranged (heap g agent) then Inr True else near (board g) agent target) = Inr True"
    using reach by auto
  {
    assume "r20 + amod (heap g agent) < ac (heap g target)"
    then show "handle_attack g agent action r20 r6 = Inr (g, - 1)"
      using idx lab liv rc by (simp add: handle_attack_def roll_attack_def Let_def)
  }
  assume hit: "ac (heap g target) \<le> r20 + amod (heap g agent)"
  let ?dmg = "r6 + dmod (heap g agent)"
  let ?t' = "take_damage (heap g target) ?dmg"
  let ?g1 = "g\<lparr>heap := (heap g)(target := ?t')\<rparr>"
  let ?rew = "(if target = agent then - 2
                                else if kind_of (heap g agent) = kind_of (heap g target) then - 1
                                else 1) * ?dmg"
  have sg: "(if target = agent then - 2 * ?dmg
             else if ally (heap g agent) (heap g target) then - ?dmg else ?dmg) = ?rew"
    by (simp add: ally_def)
  show "\<exists>g'. handle_attack g agent action r20 r6
                    = Inr (g', (if target = agent then - 2
                                else if kind_of (heap g agent) = kind_of (heap g target) then - 1
                                else 1) * (r6 + dmod (heap g agent))
                               * (if alive (heap g' target) then 1 else 2)) \<and>
                  hp (heap g' target) = hp (heap g target) - (r6 + dmod (heap g agent)) \<and>
                  alive (heap g' target) = (0 < hp (heap g' target)) \<and>
                  (alive (heap g' target) \<longrightarrow>
                     board g' = board g \<and> order g' = order g \<and> dead g' = dead g) \<and>
                  (\<not> alive (heap g' target) \<longrightarrow>
                     loc (board g') target = None \<and> target \<notin> set (order g') \<and>
                     target \<in> dead g')"
  proof (cases "alive ?t'")
    case True
    have "handle_attack g agent action r20 r6 = Inr (?g1, ?rew)"
      using idx lab liv rc hit True sg
      by (simp add: handle_attack_def roll_attack_def roll_damage_def Let_def is_alive_def)
    then show ?thesis using True by (intro exI [of _ ?g1]) (simp add: take_damage_def)
  next
    case False
    from remove_ok [OF inv onb] obtain b' where b': "remove (board g) target = Inr b'"
      and l': "loc b' target = None" by blast
    let ?g3 = "?g1\<lparr>dead := insert target (dead g), order := remove1 target (order g),
                    board := b'\<rparr>"
    have "handle_attack g agent action r20 r6 = Inr (?g3, ?rew * 2)"
      using idx lab liv rc hit False sg ord b'
      by (simp add: handle_attack_def roll_attack_def roll_damage_def Let_def is_alive_def)
    then show ?thesis using False l' dis
      by (intro exI [of _ ?g3]) (simp add: take_damage_def)
  qed
qed

lemma example_board_inv: "board_inv example_board"
proof (rule board_invI)
  show "(loc example_board e = Some p) = (ents example_board p = Some e)" for e p
    by (auto simp: example_board_def split: if_splits)
  show "grid example_board p = (ents example_board p \<noteq> None)" for p
    by (simp add: example_board_def)
  show "inbounds example_board x y" if "loc example_board e = Some (x, y)" for e x y
    using that by (auto simp: example_board_def inbounds_def split: if_splits)
  show "finite (dom (ents example_board))" by (simp add: example_board_def)
qed

text \<open>In the example game the enemy attacks the player with one hit point: a roll of 1
  misses, a roll of 15 hits for 10 and kills, with reward 20.\<close>

theorem handle_attack_living_reachable_witness:
  "handle_attack example_game 2 2 1 7 = Inr (example_game, - 1) \<and>
   \<not> isl (handle_attack example_game 2 2 15 7) \<and>
   snd (projr (handle_attack example_game 2 2 15 7)) = 20 \<and>
   hp (heap (fst (projr (handle_attack example_game 2 2 15 7))) 3) = - 9 \<and>
   3 \<in> dead (fst (projr (handle_attack example_game 2 2 15 7))) \<and>
   3 \<notin> set (order (fst (projr (handle_attack example_game 2 2 15 7)))) \<and>
   loc (board (fst (projr (handle_attack example_game 2 2 15 7)))) 3 = None"
proof -
  have idx: "index_to_agent example_game 2 = Some 3" by (simp add: example_game_def)
  have lab: "labels_known example_game [2, 3]"
    by (simp add: example_game_def labels_known_def)
  have liv: "3 \<notin> dead example_game" by (simp add: example_game_def)
  have reach: "ranged (heap example_game 2) \<or> near (board example_game) 2 3 = Inr True"
    by (simp add: example_game_def example_board_def near_def query_def)
  have inv: "board_inv (board example_game)"
    using example_board_inv by (simp add: example_game_def)
  have onb: "loc (board example_game) 3 \<noteq> None"
    by (simp add: example_game_def example_board_def)
  have ord: "3 \<in> set (order example_game)" and dis: "distinct (order example_game)"
    by (simp_all add: example_game_def)
  have st: "amod (heap example_game 2) = 3" "dmod (heap example_game 2) = 3"
    "ac (heap example_game 3) = 10" "hp (heap example_game 3) = 1"
    "kind_of (heap example_game 2) = Enemy" "kind_of (heap example_game 3) = Player"
    by (simp_all add: example_game_def example_heap_def Entity_new_def)
  note th = handle_attack_living_reachable [OF idx lab liv reach inv onb ord dis]
  have miss: "handle_attack example_game 2 2 1 7 = Inr (example_game, - 1)"
    using th [of 1 7] by (simp add: st)
  from th [of 15 7] obtain g' where
    r: "handle_attack example_game 2 2 15 7
          = Inr (g', (if (3::nat) = 2 then - 2
                      else if kind_of (heap example_game 2) = kind_of (heap example_game 3)
                      then - 1 else 1) * (7 + dmod (heap example_game 2))
                     * (if alive (heap g' 3) then 1 else 2))"
    and h: "hp (heap g' 3) = hp (heap example_game 3) - (7 + dmod (heap example_game 2))"
    and a: "alive (heap g' 3) = (0 < hp (heap g' 3))"
    and k: "\<not> alive (heap g' 3) \<longrightarrow>
              loc (board g') 3 = None \<and> 3 \<notin> set (order g') \<and> 3 \<in> dead g'"
    by (auto simp: st)
  from h have h': "hp (heap g' 3) = - 9" by (simp add: st)
  with a have na: "\<not> alive (heap g' 3)" by simp
  from r na have r': "handle_attack example_game 2 2 15 7 = Inr (g', 20)" by (simp add: st)
  from k na have k': "loc (board g') 3 = None" "3 \<notin> set (order g')" "3 \<in> dead g'" by blast+
  show ?thesis by (simp add: miss r' h' k')
qed

section \<open>Game: heal\<close>

lemma near_total: "loc b a \<noteq> None \<Longrightarrow> near b a t = Inr True \<or> near b a t = Inr False"
  by (auto simp: near_def query_def)

text \<open>
  Claim C2. The healer is on the board and the roll of 2d4 is at least 2. Without a potion
  the reward is \<open>- 1\<close> and the game is unchanged, whatever the target. With a potion one is
  consumed and \<open>2d4 + 2\<close> points are rolled; a target that is not alive or not adjacent
  (\<open>near\<close> alone decides, the ranged flag is not read) gives reward \<open>- 1\<close> and only the
  potion is spent; otherwise the target's hit points become the minimum of its maximum and
  its hit points plus the points, and the reward is the points for the healer itself or an
  entity of its kind and minus the points for an entity of the other kind, which is healed
  all the same.
\<close>

theorem handle_heal_outcomes:
  assumes idx: "index_to_agent g action = Some target"
    and lab: "labels_known g [agent, target]"
    and onb: "loc (board g) agent \<noteq> None"
    and roll: "2 \<le> r4"
  shows "(potions (heap g agent) \<le> 0 \<longrightarrow> handle_heal g agent action r4 = Inr (g, - 1)) \<and>
         (0 < potions (heap g agent) \<and>
          (\<not> alive (heap g target) \<or> near (board g) agent target = Inr False) \<longrightarrow>
            handle_heal g agent action r4
              = Inr (g\<lparr>heap := (heap g)
                         (agent := (heap g agent)\<lparr>potions := potions (heap g agent) - 1\<rparr>)\<rparr>,
                     - 1)) \<and>
         (0 < potions (heap g agent) \<and> alive (heap g target) \<and>
          near (board g) agent target = Inr True \<longrightarrow>
            (\<exists>g'. handle_heal g agent action r4
                    = Inr (g', if target = agent \<or>
                                  kind_of (heap g agent) = kind_of (heap g target)
                               then r4 + 2 else - (r4 + 2)) \<and>
                  potions (heap g' agent) = potions (heap g agent) - 1 \<and>
                  hp (heap g' target)
                    = min (max_hp (heap g target)) (hp (heap g target) + (r4 + 2)) \<and>
                  board g' = board g \<and> order g' = order g \<and> dead g' = dead g))"
proof (intro conjI impI)
  from near_total [OF onb] obtain rc where rc: "near (board g) agent target = Inr rc" by blast
  have nz: "r4 + 2 \<noteq> 0" using roll by simp
  let ?a' = "(heap g agent)\<lparr>potions := potions (heap g agent) - 1\<rparr>"
  let ?g1 = "g\<lparr>heap := (heap g)(agent := ?a')\<rparr>"
  {
    assume "potions (heap g agent) \<le> 0"
    then show "handle_heal g agent action r4 = Inr (g, - 1)"
      using idx lab rc by (simp add: handle_heal_def use_potion_def Let_def)
  }
  {
    assume a: "0 < potions (heap g agent) \<and>
          (\<not> alive (heap g target) \<or> near (board g) agent target = Inr False)"
    then have "\<not> alive (heap g target) \<or> \<not> rc" using rc by auto
    then show "handle_heal g agent action r4 = Inr (?g1, - 1)"
      using a idx lab rc nz
      by (auto simp: handle_heal_def use_potion_def Let_def is_alive_def)
  }
  assume a: "0 < potions (heap g agent) \<and> alive (heap g target) \<and>
          near (board g) agent target = Inr True"
  let ?t1 = "heap ?g1 target"
  let ?g2 = "?g1\<lparr>heap := (heap ?g1)(target := heal ?t1 (r4 + 2))\<rparr>"
  have al: "alive ?t1" using a by (cases "target = agent") simp_all
  have "handle_heal g agent action r4
          = Inr (?g2, if target = agent \<or> kind_of (heap g agent) = kind_of (heap g target)
                      then r4 + 2 else - (r4 + 2))"
    using a idx lab nz al
    by (auto simp: handle_heal_def use_potion_def Let_def is_alive_def ally_def)
  moreover have "potions (heap ?g2 agent) = potions (heap g agent) - 1"
    using al by (simp add: heal_def)
  moreover have "hp (heap ?g2 target)
                    = min (max_hp (heap g target)) (hp (heap g target) + (r4 + 2))"
    using al by (simp add: heal_def)
  ultimately show "\<exists>g'. handle_heal g agent action r4
                    = Inr (g', if target = agent \<or>
                                  kind_of (heap g agent) = kind_of (heap g target)
                               then r4 + 2 else - (r4 + 2)) \<and>
                  potions (heap g' agent) = potions (heap g agent) - 1 \<and>
                  hp (heap g' target)
                    = min (max_hp (heap g target)) (hp (heap g target) + (r4 + 2)) \<and>
                  board g' = board g \<and> order g' = order g \<and> dead g' = dead g"
    by (intro exI [of _ ?g2]) simp
qed

text \<open>The state \<open>example_killed\<close> is what the attack of the enemy on entity 3 leaves.\<close>

lemma example_kill: "handle_attack example_game 2 2 15 7 = Inr (example_killed, 20)"
  by (simp add: handle_attack_def example_game_def example_killed_def example_board_def
      example_heap_def Entity_new_def labels_known_def roll_attack_def roll_damage_def
      near_def query_def ally_def take_damage_def is_alive_def remove_def Let_def)

lemmas example_eval = example_game_def example_killed_def example_board_def example_heap_def
  Entity_new_def labels_known_def near_def query_def

text \<open>Heals in the example game: no potion, an unreachable target, a dead target, the
  healer itself at full health, and the adjacent enemy.\<close>

theorem handle_heal_outcomes_witness:
  "handle_heal example_game 3 0 5 = Inr (example_game, - 1) \<and>
   snd (projr (handle_heal example_game 1 2 5)) = - 1 \<and>
   potions (heap (fst (projr (handle_heal example_game 1 2 5))) 1) = 0 \<and>
   snd (projr (handle_heal example_killed 2 2 5)) = - 1 \<and>
   potions (heap (fst (projr (handle_heal example_killed 2 2 5))) 2) = 0 \<and>
   \<not> isl (handle_heal example_game 1 0 5) \<and>
   snd (projr (handle_heal example_game 1 0 5)) = 7 \<and>
   hp (heap (fst (projr (handle_heal example_game 1 0 5))) 1) = 20 \<and>
   snd (projr (handle_heal example_game 1 1 5)) = - 7"
proof -
  have r: "(2::int) \<le> 5" by simp
  have i: "index_to_agent example_game 0 = Some 1" "index_to_agent example_game 1 = Some 2"
    "index_to_agent example_game 2 = Some 3" "index_to_agent example_killed 2 = Some 3"
    by (simp_all add: example_eval)
  have l: "labels_known example_game [3, 1]" "labels_known example_game [1, 3]"
    "labels_known example_killed [2, 3]" "labels_known example_game [1, 1]"
    "labels_known example_game [1, 2]"
    by (simp_all add: example_eval)
  have o: "loc (board example_game) 3 \<noteq> None" "loc (board example_game) 1 \<noteq> None"
    "loc (board example_killed) 2 \<noteq> None"
    by (simp_all add: example_eval)
  have f: "potions (heap example_game 3) = 0" "potions (heap example_game 1) = 1"
    "potions (heap example_killed 2) = 1" "alive (heap example_game 3)"
    "\<not> alive (heap example_killed 3)" "alive (heap example_game 1)"
    "alive (heap example_game 2)" "hp (heap example_game 1) = 20"
    "max_hp (heap example_game 1) = 20" "kind_of (heap example_game 1) = Player"
    "kind_of (heap example_game 2) = Enemy"
    by (simp_all add: example_eval)
  have n: "near (board example_game) 1 3 = Inr False" "near (board example_game) 1 1 = Inr True"
    "near (board example_game) 1 2 = Inr True"
    by (simp_all add: example_eval)
  have w1: "handle_heal example_game 3 0 5 = Inr (example_game, - 1)"
    using handle_heal_outcomes [OF i(1) l(1) o(1) r] f by simp
  have w2: "handle_heal example_game 1 2 5
     = Inr (example_game\<lparr>heap := (heap example_game)
                 (1 := (heap example_game 1)\<lparr>potions := potions (heap example_game 1) - 1\<rparr>)\<rparr>,
            - 1)"
    using handle_heal_outcomes [OF i(3) l(2) o(2) r] f n by simp
  have w3: "handle_heal example_killed 2 2 5
     = Inr (example_killed\<lparr>heap := (heap example_killed)
                 (2 := (heap example_killed 2)\<lparr>potions := potions (heap example_killed 2) - 1\<rparr>)\<rparr>,
            - 1)"
    using handle_heal_outcomes [OF i(4) l(3) o(3) r] f by simp
  obtain g4 where w4: "handle_heal example_game 1 0 5 = Inr (g4, 7)" "hp (heap g4 1) = 20"
    using handle_heal_outcomes [OF i(1) l(4) o(2) r] f n by auto
  obtain g5 where w5: "handle_heal example_game 1 1 5 = Inr (g5, - 7)"
    using handle_heal_outcomes [OF i(2) l(5) o(2) r] f n by auto
  show ?thesis unfolding w1 w2 w3 w4 w5 using f w4(2) by simp
qed

section \<open>Game: actions that only cost a penalty\<close>

lemma handle_shift_blocked:
  assumes "labels_known g [agent]" "loc (board g) agent = Some (x, y)"
    "\<not> inbounds (board g) (x + dx) (y + dy) \<or> grid (board g) (x + dx, y + dy)"
  shows "handle_shift g agent dx dy = Inr (g, - 1)"
  using assms by (auto simp: handle_shift_def query_def free_def Let_def)

lemma labels_known_fst: "labels_known g [a, t] \<Longrightarrow> labels_known g [a]"
  by (auto simp: labels_known_def)

text \<open>
  Claim C5, as the code has it. The acting entity is on the board at \<open>(x, y)\<close>. Attacking a
  target that is in the dead set (an entity killed since the last reset), attacking an
  unreachable target, healing without a potion, and moving out of the board or into an
  occupied cell all return reward \<open>- 1\<close> and the game unchanged; none raises. Healing a
  target whose alive flag is false or that is not adjacent, while holding a potion, returns
  reward \<open>- 1\<close> as well and leaves board, hit points and dead set as they were, but the
  potion is spent. The attack tests membership in the dead set and the heal tests the
  alive flag; nothing is stated here about an attack on a target that is not alive and not
  in the dead set, which a reset produces.
\<close>

theorem penalty_outcomes:
  assumes idx: "index_to_agent g action = Some target"
    and lab: "labels_known g [agent, target]"
    and pos: "loc (board g) agent = Some (x, y)"
  shows "(target \<in> dead g \<longrightarrow> handle_attack g agent action r20 r6 = Inr (g, - 1)) \<and>
         (\<not> ranged (heap g agent) \<and> near (board g) agent target = Inr False \<longrightarrow>
            handle_attack g agent action r20 r6 = Inr (g, - 1)) \<and>
         (potions (heap g agent) \<le> 0 \<longrightarrow> handle_heal g agent action r4 = Inr (g, - 1)) \<and>
         (0 < potions (heap g agent) \<and> 2 \<le> r4 \<and>
          (\<not> alive (heap g target) \<or> near (board g) agent target = Inr False) \<longrightarrow>
            handle_heal g agent action r4
              = Inr (g\<lparr>heap := (heap g)
                         (agent := (heap g agent)\<lparr>potions := potions (heap g agent) - 1\<rparr>)\<rparr>,
                     - 1)) \<and>
         (\<not> inbounds (board g) (x - 1) y \<or> grid (board g) (x - 1, y) \<longrightarrow>
            handle_up g agent = Inr (g, - 1)) \<and>
         (\<not> inbounds (board g) (x + 1) y \<or> grid (board g) (x + 1, y) \<longrightarrow>
            handle_down g agent = Inr (g, - 1)) \<and>
         (\<not> inbounds (board g) x (y - 1) \<or> grid (board g) (x, y - 1) \<longrightarrow>
            handle_left g agent = Inr (g, - 1)) \<and>
         (\<not> inbounds (board g) x (y + 1) \<or> grid (board g) (x, y + 1) \<longrightarrow>
            handle_right g agent = Inr (g, - 1))"
proof (intro conjI impI)
  from pos have onb: "loc (board g) agent \<noteq> None" by simp
  from near_total [OF onb] obtain rc where rc: "near (board g) agent target = Inr rc" by blast
  note l1 = labels_known_fst [OF lab]
  show "handle_attack g agent action r20 r6 = Inr (g, - 1)" if "target \<in> dead g"
    using that idx lab rc by (simp add: handle_attack_def Let_def)
  show "handle_attack g agent action r20 r6 = Inr (g, - 1)"
    if "\<not> ranged (heap g agent) \<and> near (board g) agent target = Inr False"
    using that idx lab by (simp add: handle_attack_def Let_def)
  show "handle_heal g agent action r4 = Inr (g, - 1)" if "potions (heap g agent) \<le> 0"
    using that idx lab rc by (simp add: handle_heal_def use_potion_def Let_def)
  show "handle_heal g agent action r4
          = Inr (g\<lparr>heap := (heap g)
                     (agent := (heap g agent)\<lparr>potions := potions (heap g agent) - 1\<rparr>)\<rparr>, - 1)"
    if "0 < potions (heap g agent) \<and> 2 \<le> r4 \<and>
          (\<not> alive (heap g target) \<or> near (board g) agent target = Inr False)"
    using that idx lab rc
    by (auto simp: handle_heal_def use_potion_def Let_def is_alive_def)
  show "handle_up g agent = Inr (g, - 1)"
    if "\<not> inbounds (board g) (x - 1) y \<or> grid (board g) (x - 1, y)"
    using that handle_shift_blocked [OF l1 pos, of "- 1" 0] by (simp add: handle_up_def)
  show "handle_down g agent = Inr (g, - 1)"
    if "\<not> inbounds (board g) (x + 1) y \<or> grid (board g) (x + 1, y)"
    using that handle_shift_blocked [OF l1 pos, of 1 0] by (simp add: handle_down_def)
  show "handle_left g agent = Inr (g, - 1)"
    if "\<not> inbounds (board g) x (y - 1) \<or> grid (board g) (x, y - 1)"
    using that handle_shift_blocked [OF l1 pos, of 0 "- 1"] by (simp add: handle_left_def)
  show "handle_right g agent = Inr (g, - 1)"
    if "\<not> inbounds (board g) x (y + 1) \<or> grid (board g) (x, y + 1)"
    using that handle_shift_blocked [OF l1 pos, of 0 1] by (simp add: handle_right_def)
qed

text \<open>Each of the penalty outcomes in the example game.\<close>

theorem penalty_outcomes_witness:
  "handle_attack example_killed 2 2 15 7 = Inr (example_killed, - 1) \<and>
   handle_attack example_game 1 2 15 7 = Inr (example_game, - 1) \<and>
   handle_heal example_game 3 0 5 = Inr (example_game, - 1) \<and>
   handle_heal example_killed 2 2 5
     = Inr (example_killed\<lparr>heap := (heap example_killed)
              (2 := (heap example_killed 2)\<lparr>potions := 0\<rparr>)\<rparr>, - 1) \<and>
   handle_up example_game 1 = Inr (example_game, - 1) \<and>
   handle_down example_game 1 = Inr (example_game, - 1) \<and>
   handle_left example_game 1 = Inr (example_game, - 1) \<and>
   handle_right example_game 1 = Inr (example_game, - 1)"
proof -
  have i: "index_to_agent example_killed 2 = Some 3" "index_to_agent example_game 2 = Some 3"
    "index_to_agent example_game 0 = Some 1"
    by (simp_all add: example_eval)
  have l: "labels_known example_killed [2, 3]" "labels_known example_game [1, 3]"
    "labels_known example_game [3, 1]"
    by (simp_all add: example_eval)
  have p: "loc (board example_killed) 2 = Some (0, 1)" "loc (board example_game) 1 = Some (0, 0)"
    "loc (board example_game) 3 = Some (0, 2)"
    by (simp_all add: example_eval)
  have f: "3 \<in> dead example_killed" "\<not> ranged (heap example_game 1)"
    "near (board example_game) 1 3 = Inr False" "potions (heap example_game 3) \<le> 0"
    "potions (heap example_killed 2) = 1" "\<not> alive (heap example_killed 3)"
    "\<not> inbounds (board example_game) (0 - 1) 0" "\<not> inbounds (board example_game) (0 + 1) 0"
    "\<not> inbounds (board example_game) 0 (0 - 1)" "grid (board example_game) (0, 0 + 1)"
    by (simp_all add: example_eval inbounds_def)
  have w1: "handle_attack example_killed 2 2 15 7 = Inr (example_killed, - 1)"
    using penalty_outcomes [OF i(1) l(1) p(1)] f(1) by blast
  have w2: "handle_attack example_game 1 2 15 7 = Inr (example_game, - 1)"
    using penalty_outcomes [OF i(2) l(2) p(2)] f(2,3) by blast
  have w3: "handle_heal example_game 3 0 5 = Inr (example_game, - 1)"
    using penalty_outcomes [OF i(3) l(3) p(3)] f(4) by blast
  have w4: "handle_heal example_killed 2 2 5
     = Inr (example_killed\<lparr>heap := (heap example_killed)
              (2 := (heap example_killed 2)\<lparr>potions := 0\<rparr>)\<rparr>, - 1)"
    using penalty_outcomes [OF i(1) l(1) p(1), of _ _ 5] f(5,6) by simp
  have w5: "handle_up example_game 1 = Inr (example_game, - 1)"
    "handle_down example_game 1 = Inr (example_game, - 1)"
    "handle_left example_game 1 = Inr (example_game, - 1)"
    "handle_right example_game 1 = Inr (example_game, - 1)"
    using penalty_outcomes [OF i(2) l(2) p(2)] f(7-10) by blast+
  show ?thesis using w1 w2 w3 w4 w5 by blast
qed

text \<open>Claim C5 as stated fails twice. Healing an unreachable target changes the potion
  count of the healer. And after a reset the entity killed before is not alive but no
  longer in the dead set: attacking it is resolved as a hit, for reward 20, and takes its
  hit points from \<open>- 9\<close> to \<open>- 19\<close>.\<close>

theorem penalty_outcomes_counterexample:
  "near (board example_game) 1 3 = Inr False \<and>
   potions (heap example_game 1) = 1 \<and>
   \<not> isl (handle_heal example_game 1 2 5) \<and>
   snd (projr (handle_heal example_game 1 2 5)) = - 1 \<and>
   potions (heap (fst (projr (handle_heal example_game 1 2 5))) 1) = 0 \<and>
   \<not> alive (heap example_corpse 3) \<and>
   hp (heap example_corpse 3) = - 9 \<and>
   \<not> isl (handle_attack example_corpse 2 2 15 7) \<and>
   snd (projr (handle_attack example_corpse 2 2 15 7)) = 20 \<and>
   hp (heap (fst (projr (handle_attack example_corpse 2 2 15 7))) 3) = - 19"
  by (simp add: handle_heal_def use_potion_def is_alive_def ally_def Let_def example_eval
      example_corpse_def handle_attack_def roll_attack_def roll_damage_def take_damage_def
      remove_def)

section \<open>Game: the termination test of step\<close>

lemma all_allies_iff:
  "all_allies g = (\<forall>x\<in>set (order g). \<forall>y\<in>set (order g). kind_of (heap g x) = kind_of (heap g y))"
  by (simp add: all_allies_def list_all_iff ally_def)

text \<open>
  Claim C3, as the code has it. Let \<open>g1\<close> be the game after the action is resolved. When the
  order of \<open>g1\<close> is not empty and the state of the next agent can be generated, \<open>step\<close>
  returns, and its \<open>done\<close> is true iff all entities left in the order of \<open>g1\<close> are of
  the same kind (a lone survivor and a remainder of one kind included). When the order of
  \<open>g1\<close> is empty, \<open>step\<close> does not report \<open>done\<close>: the pop that follows the test fails its
  assertion.
\<close>

theorem step_done:
  assumes "apply_action g agent action ds = Inr (out, reward, g1)"
  shows "(order g1 = [] \<longrightarrow> step g agent action ds = Inl AssertionError) \<and>
         (\<forall>a rest. order g1 = a # rest \<longrightarrow>
            (\<forall>nxt. generate_state (g1\<lparr>order := rest @ [a]\<rparr>) a = Inr nxt \<longrightarrow>
               step g agent action ds
                 = Inr (out, reward,
                        (\<forall>x\<in>set (order g1). \<forall>y\<in>set (order g1).
                            kind_of (heap g1 x) = kind_of (heap g1 y)),
                        nxt, a, g1\<lparr>order := rest @ [a]\<rparr>)) \<and>
            (\<forall>e. generate_state (g1\<lparr>order := rest @ [a]\<rparr>) a = Inl e \<longrightarrow>
               step g agent action ds = Inl e))"
  using assms by (simp add: step_def pop_def Let_def all_allies_iff)

text \<open>The example states are states of the game: what registration and a reset leave.\<close>

lemma lone_reachable:
  "\<exists>st. reset id (projr (register_all (projr (Game_new 1 1 False example_heap))
                      [(3, 0, 0, ''P3'')])) = Inr (st, 3, lone_game)"
  by (simp add: game_eval reset_def initiative_def pop_def generate_state_def category_def
      np_index_def query_def lone_game_def lone_board_def Let_def)

lemmas reset_eval = game_eval reset_def initiative_def pop_def generate_state_def category_def
  np_index_def query_def Let_def

lemma example_reachable:
  "\<exists>st. reset id (projr (register_all (projr (Game_new 1 3 False example_heap))
                      [(1, 0, 0, ''P1''), (2, 0, 1, ''E1''), (3, 0, 2, ''P2'')]))
           = Inr (st, 1, example_game)"
  by (simp add: reset_eval example_game_def example_board_def)

text \<open>Resetting the game in which entity 3 was killed gives \<open>example_corpse\<close>.\<close>

lemma corpse_reachable: "\<exists>st. reset id example_killed = Inr (st, 1, example_corpse)"
  by (simp add: reset_eval example_eval example_corpse_def)

lemmas action_eval = apply_action_def with_state_def handle_attack_def handle_shift_def
  handle_up_def roll_attack_def roll_damage_def take_damage_def is_alive_def ally_def
  remove_def free_def inbounds_def generate_state_def category_def np_index_def

text \<open>In the example game, killing the only enemy ends the episode (reward 30, the two
  players remain); a blocked move does not.\<close>

theorem step_done_witness:
  "\<not> isl (step example_game 1 1 strong_dice) \<and>
   fst (snd (projr (step example_game 1 1 strong_dice))) = 30 \<and>
   fst (snd (snd (projr (step example_game 1 1 strong_dice)))) = True \<and>
   fst (snd (snd (snd (snd (projr (step example_game 1 1 strong_dice)))))) = 3 \<and>
   \<not> isl (step example_game 1 6 example_dice) \<and>
   fst (snd (projr (step example_game 1 6 example_dice))) = - 1 \<and>
   fst (snd (snd (projr (step example_game 1 6 example_dice)))) = False"
proof -
  have "\<exists>out g1 nxt. apply_action example_game 1 1 strong_dice = Inr (out, 30, g1) \<and>
          order g1 = [3, 1] \<and> kind_of (heap g1 3) = Player \<and> kind_of (heap g1 1) = Player \<and>
          generate_state (g1\<lparr>order := [1, 3]\<rparr>) 3 = Inr nxt"
    by (simp add: action_eval example_eval strong_dice_def)
  then obtain out g1 nxt where a1: "apply_action example_game 1 1 strong_dice = Inr (out, 30, g1)"
    and o1: "order g1 = [3, 1]"
    and k1: "kind_of (heap g1 3) = Player" "kind_of (heap g1 1) = Player"
    and n1: "generate_state (g1\<lparr>order := [1, 3]\<rparr>) 3 = Inr nxt"
    by blast
  have s1: "step example_game 1 1 strong_dice
              = Inr (out, 30, True, nxt, 3, g1\<lparr>order := [1, 3]\<rparr>)"
    using step_done [OF a1] o1 k1 n1 by simp
  have "\<exists>out nxt. apply_action example_game 1 6 example_dice = Inr (out, - 1, example_game) \<and>
          generate_state (example_game\<lparr>order := [3, 1, 2]\<rparr>) 2 = Inr nxt"
    by (simp add: action_eval example_eval example_dice_def)
  then obtain out2 nxt2 where
    a2: "apply_action example_game 1 6 example_dice = Inr (out2, - 1, example_game)"
    and n2: "generate_state (example_game\<lparr>order := [3, 1, 2]\<rparr>) 2 = Inr nxt2"
    by blast
  have o2: "order example_game = [2, 3, 1]" "kind_of (heap example_game 2) = Enemy"
    "kind_of (heap example_game 3) = Player"
    by (simp_all add: example_eval)
  have s2: "step example_game 1 6 example_dice
              = Inr (out2, - 1, False, nxt2, 2, example_game\<lparr>order := [3, 1, 2]\<rparr>)"
    using step_done [OF a2] o2 n2 by simp
  show ?thesis unfolding s1 s2 by simp
qed

text \<open>Claim C3 as stated fails for an empty order: the lone entity kills itself (reward
  \<open>- 40\<close>), the order is empty, and \<open>step\<close> raises instead of reporting \<open>done\<close>.\<close>

theorem empty_order_counterexample:
  "\<not> isl (apply_action lone_game 3 0 example_dice) \<and>
   fst (snd (projr (apply_action lone_game 3 0 example_dice))) = - 40 \<and>
   order (snd (snd (projr (apply_action lone_game 3 0 example_dice)))) = [] \<and>
   step lone_game 3 0 example_dice = Inl AssertionError"
  by (simp add: step_def pop_def action_eval lone_game_def lone_board_def example_heap_def
      Entity_new_def labels_known_def near_def query_def example_dice_def Let_def)

section \<open>Game: reset\<close>

lemma place_all_loc:
  "place_all b ps = Inr b' \<Longrightarrow> distinct (map fst ps) \<Longrightarrow>
     loc b' e = (case map_of ps e of Some p \<Rightarrow> Some p | None \<Rightarrow> loc b e)"
proof (induction ps arbitrary: b)
  case Nil
  then show ?case by simp
next
  case (Cons q qs)
  obtain k x y where q: "q = (k, (x, y))" by (cases q) auto
  from Cons.prems(1) obtain b1 where b1: "add b k x y = Inr b1"
    and rest: "place_all b1 qs = Inr b'"
    unfolding q by (cases "add b k x y") simp_all
  from add_Inr [OF b1] have l1: "loc b1 = (loc b)(k \<mapsto> (x, y))" by simp
  from Cons.prems(2) have d: "distinct (map fst qs)" and nk: "k \<notin> fst ` set qs"
    by (simp_all add: q)
  from nk have mk: "map_of qs k = None" by (simp add: map_of_eq_None_iff)
  from Cons.IH [OF rest d]
  have ih: "loc b' e = (case map_of qs e of Some p \<Rightarrow> Some p | None \<Rightarrow> loc b1 e)" .
  show ?case
  proof (cases "e = k")
    case True
    then show ?thesis using ih mk by (simp add: q l1)
  next
    case False
    then show ?thesis using ih by (cases "map_of qs e") (simp_all add: q l1)
  qed
qed

lemma reset_Inr:
  assumes "reset shuffle g = Inr (st, a, g')"
  shows "\<exists>b0 b rest. Board_new (game_rows g) (game_cols g) = Inr b0 \<and>
           place_all b0 (initial_position g) = Inr b \<and>
           shuffle (agents g) = a # rest \<and>
           g' = g\<lparr>order := rest @ [a], board := b, dead := {}\<rparr>"
proof -
  from assms obtain b0 where b0: "Board_new (game_rows g) (game_cols g) = Inr b0"
    by (cases "Board_new (game_rows g) (game_cols g)")
       (simp_all add: reset_def initiative_def Let_def)
  from assms b0 obtain b where b: "place_all b0 (initial_position g) = Inr b"
    by (cases "place_all b0 (initial_position g)")
       (simp_all add: reset_def initiative_def Let_def)
  from assms b0 b obtain a' rest where sh: "shuffle (agents g) = a' # rest"
    by (cases "shuffle (agents g)") (simp_all add: reset_def initiative_def pop_def Let_def)
  let ?g4 = "g\<lparr>dead := {}, board := b, order := rest @ [a']\<rparr>"
  from assms b0 b sh have "a = a' \<and> g' = ?g4"
    by (cases "generate_state ?g4 a'") (auto simp: reset_def initiative_def pop_def Let_def)
  with b0 b sh show ?thesis by simp
qed

text \<open>Registration keeps the keys of \<open>initial_position\<close> distinct, and nothing else
  writes that dictionary.\<close>

lemma register_all_initial_distinct:
  "distinct (map fst (initial_position g)) \<Longrightarrow> register_all g regs = Inr g' \<Longrightarrow>
     distinct (map fst (initial_position g'))"
proof (induction regs arbitrary: g)
  case Nil
  then show ?case by simp
next
  case (Cons r rs)
  obtain e x y l where r: "r = (e, x, y, l)" by (cases r) auto
  from Cons.prems(2) obtain g1 where g1: "game_add g e x y l = Inr g1"
    and rest: "register_all g1 rs = Inr g'"
    unfolding r by (cases "game_add g e x y l") simp_all
  from game_add_Inr [OF g1]
  have "initial_position g1 = AList.update e (x, y) (initial_position g)" by auto
  with Cons.prems(1) have "distinct (map fst (initial_position g1))"
    by (simp add: distinct_update)
  from Cons.IH [OF this rest] show ?case .
qed

lemma registered_initial_distinct:
  "Game_new r c s h = Inr g0 \<Longrightarrow> register_all g0 regs = Inr g \<Longrightarrow>
     distinct (map fst (initial_position g))"
proof -
  assume a: "Game_new r c s h = Inr g0" and b: "register_all g0 regs = Inr g"
  from a have "initial_position g0 = []"
    by (cases "Board_new r c") (auto simp: Game_new_def)
  then have "distinct (map fst (initial_position g0))" by simp
  from register_all_initial_distinct [OF this b] show ?thesis .
qed

text \<open>
  Claim C10. A reset that returns (with a shuffle that permutes the registered entities,
  in a game whose \<open>initial_position\<close> has distinct keys) has rebuilt the board from
  \<open>initial_position\<close>, emptied the dead set and made the order a permutation of the
  registered entities, and has left the store of entities untouched: hit points, potion
  counts and alive flags are those of before. In particular an entity killed earlier is
  back on the board at its initial position and back in the order, still not alive and
  with non-positive hit points.
\<close>

theorem reset_keeps_entities:
  assumes res: "reset shuffle g = Inr (st, a, g')"
    and perm: "mset (shuffle (agents g)) = mset (agents g)"
    and dis: "distinct (map fst (initial_position g))"
  shows "heap g' = heap g \<and> dead g' = {} \<and> mset (order g') = mset (agents g) \<and>
         (\<forall>e. loc (board g') e = map_of (initial_position g) e) \<and>
         (\<forall>e p. e \<in> set (agents g) \<and> map_of (initial_position g) e = Some p \<and>
                \<not> alive (heap g e) \<and> hp (heap g e) \<le> 0 \<longrightarrow>
                loc (board g') e = Some p \<and> e \<in> set (order g') \<and>
                \<not> alive (heap g' e) \<and> hp (heap g' e) \<le> 0)"
proof -
  from reset_Inr [OF res] obtain b0 b rest where
    b0: "Board_new (game_rows g) (game_cols g) = Inr b0"
    and b: "place_all b0 (initial_position g) = Inr b"
    and sh: "shuffle (agents g) = a # rest"
    and g': "g' = g\<lparr>order := rest @ [a], board := b, dead := {}\<rparr>"
    by blast
  have h: "heap g' = heap g" and d: "dead g' = {}" by (simp_all add: g')
  have "mset (order g') = mset (shuffle (agents g))" by (simp add: g' sh)
  with perm have m: "mset (order g') = mset (agents g)" by simp
  then have so: "set (order g') = set (agents g)" by (rule mset_eq_setD)
  from b0 have e0: "loc b0 = Map.empty" by (auto simp: Board_new_def split: if_splits)
  have l: "loc (board g') e = map_of (initial_position g) e" for e
    using place_all_loc [OF b dis, of e] by (simp add: g' e0 split: option.splits)
  show ?thesis using h d m l so by simp
qed

text \<open>Resetting the example game after entity 3 has been killed.\<close>

theorem reset_keeps_entities_witness:
  "\<not> isl (reset id example_killed) \<and>
   fst (snd (projr (reset id example_killed))) = 1 \<and>
   loc (board (snd (snd (projr (reset id example_killed))))) 3 = Some (0, 2) \<and>
   3 \<in> set (order (snd (snd (projr (reset id example_killed))))) \<and>
   dead (snd (snd (projr (reset id example_killed)))) = {} \<and>
   \<not> alive (heap (snd (snd (projr (reset id example_killed)))) 3) \<and>
   hp (heap (snd (snd (projr (reset id example_killed)))) 3) = - 9"
proof -
  have "\<exists>st g'. reset id example_killed = Inr (st, 1, g')"
    by (simp add: reset_eval example_eval)
  then obtain st g' where r: "reset id example_killed = Inr (st, 1, g')" by blast
  have p: "mset (id (agents example_killed)) = mset (agents example_killed)" by simp
  have d: "distinct (map fst (initial_position example_killed))"
    by (simp add: example_eval)
  have f: "3 \<in> set (agents example_killed)"
    "map_of (initial_position example_killed) 3 = Some (0, 2)"
    "\<not> alive (heap example_killed 3)" "hp (heap example_killed 3) = - 9"
    by (simp_all add: example_eval)
  from reset_keeps_entities [OF r p d] f
  have "heap g' = heap example_killed" "dead g' = {}" "loc (board g') 3 = Some (0, 2)"
    "3 \<in> set (order g')"
    by auto
  with f show ?thesis unfolding r by simp
qed

end
